theory Spec2Isabelle
  imports Main "HOL-Library.Word" "HOL-Library.Multiset"
begin

section \<open>dyngo: the operation tree and its events\<close>

subsection \<open>Values, types and errors\<close>

text \<open>
  A \<^verbatim>\<open>reflect.Type\<close> is an interface value: \<open>None\<close> is the nil type (what
  \<^verbatim>\<open>reflect.TypeOf(nil)\<close> returns, and the zero value of the field
  \<^verbatim>\<open>expectedResType\<close>), \<open>Some n\<close> the concrete type named \<open>n\<close>.
  An \<^verbatim>\<open>interface{}\<close> argument is either nil or a value of a concrete type.
\<close>

type_synonym reflect_Type = "string option"

datatype iface = NilValue | Value string string

fun TypeOf :: "iface \<Rightarrow> reflect_Type" where
  "TypeOf NilValue = None"
| "TypeOf (Value t v) = Some t"

text \<open>Every \<^verbatim>\<open>panic(err)\<close> of the package is a value of this type.\<close>

datatype error =
    AlreadyRegistered reflect_Type reflect_Type
  | UnexpectedResult reflect_Type reflect_Type
  | UnknownOperation reflect_Type
  | InvalidKey string

subsection \<open>The event manager\<close>

text \<open>
  Modelled from the spec: the struct \<^verbatim>\<open>eventManager\<close> embedded in \<^verbatim>\<open>Operation\<close>, its
  three registers and their \<^verbatim>\<open>clear\<close> are declared in files of the repository that are not embedded here. Section 4.3:
  each operation keeps three independent tables (start, data, finish), each a mapping
  from a concrete payload type to an ordered collection of callbacks. A callback is user
  code; it is identified here by a number, and each invocation is recorded in the call log
  of the state.
\<close>

type_synonym eventListener = nat

type_synonym eventRegister = "reflect_Type \<Rightarrow> eventListener list"

definition clear :: "eventRegister \<Rightarrow> eventRegister" where
  "clear r = (\<lambda>key. [])"

record eventManager =
  onStart :: eventRegister
  onData :: eventRegister
  onFinish :: eventRegister
  disabled :: bool

text \<open>
  \<^verbatim>\<open>type Operation struct { parent *Operation; expectedResType reflect.Type; eventManager }\<close>.
  A \<^verbatim>\<open>*Operation\<close> is an address into the heap of the state, \<open>None\<close> being nil.
\<close>

record Operation = eventManager +
  parent :: "nat option"
  expectedResType :: reflect_Type

datatype event_kind = OnStart | OnData | OnFinish

text \<open>One listener invocation \<^verbatim>\<open>l(op, v)\<close>, made by the node \<open>at\<close>.\<close>

record call =
  kind :: event_kind
  at :: nat
  listener :: eventListener
  origin :: nat
  payload :: iface

text \<open>
  The package-level variables (\<^verbatim>\<open>operationRegister\<close>, \<^verbatim>\<open>operationResRegister\<close>), the
  allocated operations and the log of listener invocations.
\<close>

record state =
  heap :: "Operation list"
  operationRegister :: "reflect_Type \<rightharpoonup> reflect_Type"
  operationResRegister :: "reflect_Type set"
  calls :: "call list"

definition updateOp :: "nat \<Rightarrow> (Operation \<Rightarrow> Operation) \<Rightarrow> state \<Rightarrow> state" where
  "updateOp a f st = st\<lparr>heap := (heap st)[a := f (heap st ! a)]\<rparr>"

text \<open>
  Modelled from the spec: \<^verbatim>\<open>emitStartEvent\<close>, \<^verbatim>\<open>emitDataEvent\<close> and \<^verbatim>\<open>emitFinishEvent\<close> are
  methods of the event manager, in a file of the repository that is not embedded here. Sections 3 and 4.3: a node
  invokes, in registration order, its listeners of the event's kind that watch exactly
  the runtime type of the payload, passing the originating operation and the payload; no
  event is dispatched through a node once it is disabled.
\<close>

fun register_of :: "event_kind \<Rightarrow> Operation \<Rightarrow> eventRegister" where
  "register_of OnStart e = onStart e"
| "register_of OnData e = onData e"
| "register_of OnFinish e = onFinish e"

definition emitEvent :: "event_kind \<Rightarrow> nat \<Rightarrow> nat \<Rightarrow> iface \<Rightarrow> state \<Rightarrow> state" where
  "emitEvent k a op v st =
     (let e = heap st ! a in
      if disabled e then st
      else st\<lparr>calls := calls st @
             map (\<lambda>l. \<lparr>kind = k, at = a, listener = l, origin = op, payload = v\<rparr>)
               (register_of k e (TypeOf v))\<rparr>)"

definition emitStartEvent :: "nat \<Rightarrow> nat \<Rightarrow> iface \<Rightarrow> state \<Rightarrow> state" where
  "emitStartEvent a op v st = emitEvent OnStart a op v st"

definition emitDataEvent :: "nat \<Rightarrow> nat \<Rightarrow> iface \<Rightarrow> state \<Rightarrow> state" where
  "emitDataEvent a op v st = emitEvent OnData a op v st"

definition emitFinishEvent :: "nat \<Rightarrow> nat \<Rightarrow> iface \<Rightarrow> state \<Rightarrow> state" where
  "emitFinishEvent a op v st = emitEvent OnFinish a op v st"

subsection \<open>The register of operation types\<close>

text \<open>
  \<^verbatim>\<open>validateEventListenerKey\<close> is in a file of the repository that is not embedded here, and the spec does not describe
  it, so \<^verbatim>\<open>RegisterOperation\<close> takes it as its first argument: a function that gives the
  type a key stands for, or an error. A panic leaves the two maps as they were, since both
  writes come after the last check.
\<close>

definition RegisterOperation ::
  "(iface \<Rightarrow> error + reflect_Type) \<Rightarrow> iface \<Rightarrow> iface \<Rightarrow> state \<Rightarrow> error option \<times> state" where
  "RegisterOperation validateEventListenerKey args res st =
     (case validateEventListenerKey args of
        Inl err \<Rightarrow> (Some err, st)
      | Inr argsType \<Rightarrow>
          (case validateEventListenerKey res of
             Inl err \<Rightarrow> (Some err, st)
           | Inr resType \<Rightarrow>
               (case operationRegister st argsType of
                  Some resType' \<Rightarrow> (Some (AlreadyRegistered argsType resType'), st)
                | None \<Rightarrow>
                    (None, st\<lparr>operationRegister := (operationRegister st)(argsType \<mapsto> resType),
                              operationResRegister := insert resType (operationResRegister st)\<rparr>))))"

subsection \<open>Creating operations\<close>

text \<open>\<^verbatim>\<open>WithParent\<close> is the only option of the package; its argument may be nil.\<close>

datatype Option = WithParent "nat option"

fun applyOption :: "Option \<Rightarrow> Operation \<Rightarrow> Operation" where
  "applyOption (WithParent p) op = op\<lparr>parent := p\<rparr>"

definition zeroOperation :: Operation where
  "zeroOperation =
     \<lparr>onStart = (\<lambda>key. []), onData = (\<lambda>key. []), onFinish = (\<lambda>key. []), disabled = False,
      parent = None, expectedResType = None\<rparr>"

text \<open>
  \<^verbatim>\<open>newOperation\<close> allocates \<^verbatim>\<open>&Operation{}\<close> and applies the options in order. The new
  address is the next free one.
\<close>

definition newOperation :: "Option list \<Rightarrow> state \<Rightarrow> nat \<times> state" where
  "newOperation opts st =
     (length (heap st), st\<lparr>heap := heap st @ [foldl (\<lambda>op opt. applyOption opt op) zeroOperation opts]\<rparr>)"

text \<open>\<^verbatim>\<open>var root = newOperation()\<close>, evaluated at package initialisation.\<close>

definition root :: nat where
  "root = 0"

definition init :: state where
  "init = snd (newOperation []
     \<lparr>heap = [], operationRegister = Map.empty, operationResRegister = {}, calls = []\<rparr>)"

definition Parent :: "nat \<Rightarrow> state \<Rightarrow> nat option" where
  "Parent a st = parent (heap st ! a)"

definition getOperationRes :: "reflect_Type \<Rightarrow> state \<Rightarrow> error + reflect_Type" where
  "getOperationRes args st =
     (case operationRegister st args of
        None \<Rightarrow> Inl (UnknownOperation args)
      | Some res \<Rightarrow> Inr res)"

definition validateExpectedRes :: "reflect_Type \<Rightarrow> reflect_Type \<Rightarrow> error option" where
  "validateExpectedRes res expectedRes =
     (if res \<noteq> expectedRes then Some (UnexpectedResult expectedRes res) else None)"

text \<open>
  The loop \<^verbatim>\<open>for op := start; op != nil; op = op.Parent() { body(op) }\<close>, which
  \<^verbatim>\<open>StartOperation\<close>, \<^verbatim>\<open>Finish\<close> and \<^verbatim>\<open>EmitData\<close> each run with their own body. Nothing in
  the loop bounds it: on a heap whose parent pointers form a cycle it does not return,
  which is the value \<open>None\<close>.
\<close>

partial_function (option) bubble ::
  "(nat \<Rightarrow> state \<Rightarrow> state) \<Rightarrow> nat option \<Rightarrow> state \<Rightarrow> state option" where
  "bubble body op st =
     (case op of
        None \<Rightarrow> Some st
      | Some a \<Rightarrow> (let st' = body a st in bubble body (Parent a st') st'))"

declare bubble.simps [code]

text \<open>
  \<^verbatim>\<open>StartOperation\<close>: the result is \<open>None\<close> when the call does not return, otherwise the
  panic value or the address of the new operation, with the state it leaves.
\<close>

definition StartOperation ::
  "iface \<Rightarrow> Option list \<Rightarrow> state \<Rightarrow> ((error + nat) \<times> state) option" where
  "StartOperation args opts st =
     (case getOperationRes (TypeOf args) st of
        Inl err \<Rightarrow> Some (Inl err, st)
      | Inr expectedResType' \<Rightarrow>
          (let (o', st1) = newOperation opts st;
               st2 = updateOp o' (\<lambda>op. op\<lparr>expectedResType := expectedResType'\<rparr>) st1;
               st3 = (if Parent o' st2 = None
                      then updateOp o' (\<lambda>op. op\<lparr>parent := Some root\<rparr>) st2 else st2)
           in case bubble (\<lambda>op. emitStartEvent op o' args) (Parent o' st3) st3 of
                None \<Rightarrow> None
              | Some st4 \<Rightarrow> Some (Inr o', st4)))"

subsection \<open>Finishing, emitting data, registering listeners\<close>

definition disable :: "nat \<Rightarrow> state \<Rightarrow> state" where
  "disable a st =
     updateOp a (\<lambda>e. e\<lparr>disabled := True, onStart := clear (onStart e),
                       onData := clear (onData e), onFinish := clear (onFinish e)\<rparr>) st"

text \<open>
  \<^verbatim>\<open>Finish\<close>: \<^verbatim>\<open>defer o.disable()\<close> runs on every path that leaves the function, the
  panic included, so both outcomes carry the state after \<^verbatim>\<open>disable\<close>.
\<close>

definition Finish :: "nat \<Rightarrow> iface \<Rightarrow> state \<Rightarrow> (error option \<times> state) option" where
  "Finish o' results st =
     (case validateExpectedRes (TypeOf results) (expectedResType (heap st ! o')) of
        Some err \<Rightarrow> Some (Some err, disable o' st)
      | None \<Rightarrow>
          (case bubble (\<lambda>op. emitFinishEvent op o' results) (Some o') st of
             None \<Rightarrow> None
           | Some st' \<Rightarrow> Some (None, disable o' st')))"

definition EmitData :: "nat \<Rightarrow> iface \<Rightarrow> state \<Rightarrow> state option" where
  "EmitData o' data st =
     (if disabled (heap st ! o') then Some st
      else bubble (\<lambda>op. emitDataEvent op o' data) (Some o') st)"

text \<open>
  Modelled from the spec: the interface \<^verbatim>\<open>EventListener\<close>, its method \<^verbatim>\<open>registerTo\<close> and
  the type \<^verbatim>\<open>eventUnregister\<close> are in a file of the repository that is not embedded here. Sections 3 and 4.2: a
  listener is a start, data or finish listener watching one concrete payload type;
  registering adds it at the end of the matching collection of the operation, under the
  watched type, if the operation is Active, and has no effect on a Disabled operation.
  The handle returned names what was asked to be registered.
\<close>

datatype EventListener =
    StartListener reflect_Type eventListener
  | DataListener reflect_Type eventListener
  | FinishListener reflect_Type eventListener

datatype eventUnregister = Unregister EventListener

fun addListener :: "EventListener \<Rightarrow> Operation \<Rightarrow> Operation" where
  "addListener (StartListener key l) e = e\<lparr>onStart := (onStart e)(key := onStart e key @ [l])\<rparr>"
| "addListener (DataListener key l) e = e\<lparr>onData := (onData e)(key := onData e key @ [l])\<rparr>"
| "addListener (FinishListener key l) e = e\<lparr>onFinish := (onFinish e)(key := onFinish e key @ [l])\<rparr>"

definition registerTo :: "EventListener \<Rightarrow> nat \<Rightarrow> state \<Rightarrow> eventUnregister \<times> state" where
  "registerTo l a st =
     (Unregister l, if disabled (heap st ! a) then st else updateOp a (addListener l) st)"

text \<open>
  \<^verbatim>\<open>Register\<close> fills \<^verbatim>\<open>ids\<close> in the order of its arguments; the closure it returns
  captures \<^verbatim>\<open>ids\<close>, which is what the model returns.
\<close>

fun Register :: "EventListener list \<Rightarrow> nat \<Rightarrow> state \<Rightarrow> eventUnregister list \<times> state" where
  "Register [] o' st = ([], st)"
| "Register (l # ls) o' st =
     (let (id', st1) = registerTo l o' st;
          (ids, st2) = Register ls o' st1
      in (id' # ids, st2))"


section \<open>Intake API payloads\<close>

subsection \<open>What the package reads\<close>

text \<open>
  The types of the packages \<^verbatim>\<open>appsec/types\<close> and \<^verbatim>\<open>waf/types\<close> are declared in
  files of the repository that are not embedded here; each record below has the fields that \<^verbatim>\<open>api.go\<close> reads, with the types
  its uses fix. \<^verbatim>\<open>SpanContext\<close> also carries the span's own identifier, which
  \<^verbatim>\<open>applySpanContext\<close> never reads. A \<^verbatim>\<open>time.Time\<close> is an opaque instant, a
  \<^verbatim>\<open>[]byte\<close> a list of bytes, a Go map a partial function (a nil map and an empty map
  both have length 0 and are both the empty function).
\<close>

type_synonym Time = int

record Filter =
  f_Operator :: string
  f_OperatorValue :: string
  f_BindingAccessor :: string
  f_ResolvedValue :: string
  f_MatchStatus :: string

record Match =
  m_Rule :: string
  m_Flow :: string
  m_Filter :: "Filter list"

type_synonym AttackMetadata = "Match list"

record RawAttack =
  a_Time :: Time
  a_Metadata :: "8 word list"

record SpanContext =
  TraceID :: "64 word"
  SpanID :: "64 word"

record HTTPRequestContext =
  q_Method :: string
  q_Host :: string
  q_IsTLS :: bool
  q_RemoteAddr :: string
  q_Path :: string
  q_Headers :: "string \<rightharpoonup> string list"
  q_Query :: "string \<rightharpoonup> string list"

record HTTPResponseContext =
  p_Status :: int

record HTTPContext =
  h_Request :: HTTPRequestContext
  h_Response :: HTTPResponseContext

record ServiceContext =
  s_Name :: string
  s_Version :: string
  s_Environment :: string

record TracerContext =
  t_Version :: string
  t_Runtime :: string
  t_RuntimeVersion :: string

record HostContext =
  o_Hostname :: string
  o_OS :: string

text \<open>
  The interface \<^verbatim>\<open>SecurityEventContext\<close> by the dynamic types that \<^verbatim>\<open>applyContext\<close>
  switches on; \<open>OtherContext\<close> is any other value, nil included.
\<close>

datatype SecurityEventContext =
    IsSpanContext SpanContext
  | IsHTTPContext HTTPContext
  | IsServiceContext ServiceContext
  | IsTagContext "string list"
  | IsTracerContext TracerContext
  | IsHostContext HostContext
  | OtherContext

text \<open>A \<^verbatim>\<open>*SecurityEvent\<close> of the argument slice, taken to be non-nil.\<close>

record SecurityEvent =
  e_Event :: "RawAttack list"
  e_Context :: "SecurityEventContext list"

text \<open>
  What the file calls in other modules, as parameters: \<open>NewUUID n\<close> is the text
  \<^verbatim>\<open>id.String()\<close> of the n-th \<^verbatim>\<open>uuid.NewUUID()\<close> of the process (both callers discard the
  error); \<open>Unmarshal\<close> is \<^verbatim>\<open>json.Unmarshal\<close> into a \<^verbatim>\<open>waftypes.AttackMetadata\<close>;
  \<open>TrimSpace\<close> is \<^verbatim>\<open>strings.TrimSpace\<close>; \<open>SplitHostPort\<close> is \<^verbatim>\<open>net.SplitHostPort\<close> with
  \<open>None\<close> for an error; \<open>Atoi\<close> is the integer \<^verbatim>\<open>strconv.Atoi\<close> returns, its error
  discarded as the caller does.
\<close>

record extern =
  NewUUID :: "nat \<Rightarrow> string"
  Unmarshal :: "8 word list \<Rightarrow> string + AttackMetadata"
  TrimSpace :: "string \<Rightarrow> string"
  SplitHostPort :: "string \<Rightarrow> (string \<times> string) option"
  Atoi :: "string \<Rightarrow> int"

text \<open>
  What the package changes outside its results: the number of UUIDs drawn so far and the
  errors passed to \<^verbatim>\<open>log.Error\<close>.
\<close>

record env =
  uuids :: nat
  logged :: "string list"

subsection \<open>The payloads\<close>

record AttackRule =
  rule_ID :: string
  rule_Name :: string

record AttackRuleMatchParameter =
  par_Name :: string
  par_Value :: string

record AttackRuleMatch =
  rm_Operator :: string
  rm_OperatorValue :: string
  rm_Parameters :: "AttackRuleMatchParameter list"
  rm_Highlight :: "string list"

record AttackContextHost =
  host_ContextVersion :: string
  host_OsType :: string
  host_Hostname :: string

record AttackContextHTTPRequestParameters =
  Query :: "(string \<rightharpoonup> string) option"

record attackContextHTTPRequest =
  req_Scheme :: string
  req_Method :: string
  req_URL :: string
  req_Host :: string
  req_Port :: int
  req_Path :: string
  req_Resource :: string
  req_RemoteIP :: string
  req_RemotePort :: int
  req_Headers :: "(string \<rightharpoonup> string) option"
  req_Parameters :: AttackContextHTTPRequestParameters

record attackContextHTTPResponse =
  res_Status :: int

record AttackContextHTTP =
  http_ContextVersion :: string
  http_Request :: attackContextHTTPRequest
  http_Response :: attackContextHTTPResponse

record AttackContextService =
  svc_ContextVersion :: string
  svc_Name :: string
  svc_Environment :: string
  svc_Version :: string

record AttackContextTags =
  tags_ContextVersion :: string
  tags_Values :: "string list"

record AttackContextTrace =
  trace_ContextVersion :: string
  trace_ID :: string

record AttackContextSpan =
  span_ContextVersion :: string
  span_ID :: string

record AttackContextTracer =
  tracer_ContextVersion :: string
  tracer_RuntimeType :: string
  tracer_RuntimeVersion :: string
  tracer_LibVersion :: string

record AttackContext =
  ctx_Host :: AttackContextHost
  ctx_HTTP :: AttackContextHTTP
  ctx_Service :: AttackContextService
  ctx_Tags :: "AttackContextTags option"
  ctx_Span :: AttackContextSpan
  ctx_Trace :: AttackContextTrace
  ctx_Tracer :: AttackContextTracer

record AttackEvent =
  EventVersion :: string
  EventID :: string
  EventType :: string
  DetectedAt :: Time
  Type :: string
  Rule :: AttackRule
  RuleMatch :: "AttackRuleMatch option"
  Context :: "AttackContext option"

record EventBatch =
  IdempotencyKey :: string
  Events :: "AttackEvent list"

subsection \<open>Attack contexts\<close>

text \<open>\<^verbatim>\<open>strconv.FormatUint(x, 10)\<close>: the decimal digits of \<open>x\<close>, no leading zero.\<close>

function decimal :: "nat \<Rightarrow> string" where
  "decimal n =
     (if n < 10 then [''0123456789'' ! n]
      else decimal (n div 10) @ [''0123456789'' ! (n mod 10)])"
  by pat_completeness auto
termination
  by (relation "measure (\<lambda>n. n)") auto

declare decimal.simps [simp del]

definition FormatUint10 :: "64 word \<Rightarrow> string" where
  "FormatUint10 x = decimal (unat x)"

text \<open>\<^verbatim>\<open>strings.Join(v, sep)\<close>.\<close>

fun Join :: "string list \<Rightarrow> string \<Rightarrow> string" where
  "Join [] sep = []"
| "Join [x] sep = x"
| "Join (x # y # ys) sep = x @ sep @ Join (y # ys) sep"

definition MakeAttackContextTrace :: "string \<Rightarrow> AttackContextTrace" where
  "MakeAttackContextTrace traceID = \<lparr>trace_ContextVersion = ''0.1.0'', trace_ID = traceID\<rparr>"

definition MakeAttackContextSpan :: "string \<Rightarrow> AttackContextSpan" where
  "MakeAttackContextSpan spanID = \<lparr>span_ContextVersion = ''0.1.0'', span_ID = spanID\<rparr>"

definition applySpanContext :: "AttackContext \<Rightarrow> SpanContext \<Rightarrow> AttackContext" where
  "applySpanContext c ctx =
     (let trace = FormatUint10 (TraceID ctx);
          span = FormatUint10 (TraceID ctx)
      in c\<lparr>ctx_Trace := MakeAttackContextTrace trace, ctx_Span := MakeAttackContextSpan span\<rparr>)"

definition makeAttackContextHost :: "string \<Rightarrow> string \<Rightarrow> AttackContextHost" where
  "makeAttackContextHost hostname os =
     \<lparr>host_ContextVersion = ''0.1.0'', host_OsType = os, host_Hostname = hostname\<rparr>"

definition makeAttackContextTracer :: "string \<Rightarrow> string \<Rightarrow> string \<Rightarrow> AttackContextTracer" where
  "makeAttackContextTracer version rt rtVersion =
     \<lparr>tracer_ContextVersion = ''0.1.0'', tracer_RuntimeType = rt,
      tracer_RuntimeVersion = rtVersion, tracer_LibVersion = version\<rparr>"

definition newAttackContextTags :: "string list \<Rightarrow> AttackContextTags option" where
  "newAttackContextTags tags = Some \<lparr>tags_ContextVersion = ''0.1.0'', tags_Values = tags\<rparr>"

definition makeServiceContext :: "string \<Rightarrow> string \<Rightarrow> string \<Rightarrow> AttackContextService" where
  "makeServiceContext name version environment =
     \<lparr>svc_ContextVersion = ''0.1.0'', svc_Name = name, svc_Environment = environment,
      svc_Version = version\<rparr>"

definition makeAttackContextHTTPResponse :: "HTTPResponseContext \<Rightarrow> attackContextHTTPResponse" where
  "makeAttackContextHTTPResponse res = \<lparr>res_Status = p_Status res\<rparr>"

definition makeAttackContextHTTP ::
  "attackContextHTTPRequest \<Rightarrow> attackContextHTTPResponse \<Rightarrow> AttackContextHTTP" where
  "makeAttackContextHTTP req res =
     \<lparr>http_ContextVersion = ''0.1.0'', http_Request = req, http_Response = res\<rparr>"

definition collectedHeaders :: "string list" where
  "collectedHeaders =
     [''host'', ''x-forwarded-for'', ''x-client-ip'', ''x-real-ip'', ''x-forwarded'',
      ''x-cluster-client-ip'', ''forwarded-for'', ''forwarded'', ''via'', ''true-client-ip'',
      ''content-length'', ''content-type'', ''content-encoding'', ''content-language'',
      ''forwarded'', ''user-agent'', ''accept'', ''accept-encoding'', ''accept-language'']"

definition splitHostPort :: "extern \<Rightarrow> string \<Rightarrow> string \<times> string" where
  "splitHostPort X addr0 =
     (let addr = TrimSpace X addr0 in
      case SplitHostPort X addr of
        Some (host, port) \<Rightarrow> (host, port)
      | None \<Rightarrow>
          (let l = length addr in
           if l \<ge> 2 \<and> addr ! 0 = CHR ''['' \<and> addr ! (l - 1) = CHR '']''
           then (take (l - 2) (drop 1 addr), [])
           else (addr, [])))"

definition makeAttackContextHTTPRequest ::
  "extern \<Rightarrow> HTTPRequestContext \<Rightarrow> attackContextHTTPRequest" where
  "makeAttackContextHTTPRequest X req =
     (let (host, portStr) = splitHostPort X (q_Host req);
          port = Atoi X portStr;
          (remoteIP, remotePortStr) = splitHostPort X (q_RemoteAddr req);
          remotePort = Atoi X remotePortStr;
          scheme = (if q_IsTLS req then ''https'' else ''http'');
          url = scheme @ ''://'' @ q_Host req @ q_Path req;
          headers =
            (if q_Headers req \<noteq> Map.empty
             then Some (foldl (\<lambda>hs k. case q_Headers req k of
                                         Some v \<Rightarrow> hs(k \<mapsto> Join v '';'')
                                       | None \<Rightarrow> hs) Map.empty collectedHeaders)
             else None);
          query =
            (if q_Query req \<noteq> Map.empty
             then Some (\<lambda>k. map_option (\<lambda>v. Join v '';'') (q_Query req k))
             else None)
      in \<lparr>req_Scheme = scheme, req_Method = q_Method req, req_URL = url, req_Host = host,
          req_Port = port, req_Path = q_Path req, req_Resource = [], req_RemoteIP = remoteIP,
          req_RemotePort = remotePort, req_Headers = headers,
          req_Parameters = \<lparr>Query = query\<rparr>\<rparr>)"

definition applyHTTPContext :: "extern \<Rightarrow> AttackContext \<Rightarrow> HTTPContext \<Rightarrow> AttackContext" where
  "applyHTTPContext X c ctx =
     c\<lparr>ctx_HTTP := makeAttackContextHTTP (makeAttackContextHTTPRequest X (h_Request ctx))
                      (makeAttackContextHTTPResponse (h_Response ctx))\<rparr>"

definition applyServiceContext :: "AttackContext \<Rightarrow> ServiceContext \<Rightarrow> AttackContext" where
  "applyServiceContext c ctx =
     c\<lparr>ctx_Service := makeServiceContext (s_Name ctx) (s_Version ctx) (s_Environment ctx)\<rparr>"

definition applyTagContext :: "AttackContext \<Rightarrow> string list \<Rightarrow> AttackContext" where
  "applyTagContext c ctx = c\<lparr>ctx_Tags := newAttackContextTags ctx\<rparr>"

definition applyTracerContext :: "AttackContext \<Rightarrow> TracerContext \<Rightarrow> AttackContext" where
  "applyTracerContext c ctx =
     c\<lparr>ctx_Tracer := makeAttackContextTracer (t_Version ctx) (t_Runtime ctx) (t_RuntimeVersion ctx)\<rparr>"

definition applyHostContext :: "AttackContext \<Rightarrow> HostContext \<Rightarrow> AttackContext" where
  "applyHostContext c ctx = c\<lparr>ctx_Host := makeAttackContextHost (o_Hostname ctx) (o_OS ctx)\<rparr>"

fun applyContext :: "extern \<Rightarrow> AttackContext \<Rightarrow> SecurityEventContext \<Rightarrow> AttackContext" where
  "applyContext X c (IsSpanContext actual) = applySpanContext c actual"
| "applyContext X c (IsHTTPContext actual) = applyHTTPContext X c actual"
| "applyContext X c (IsServiceContext actual) = applyServiceContext c actual"
| "applyContext X c (IsTagContext actual) = applyTagContext c actual"
| "applyContext X c (IsTracerContext actual) = applyTracerContext c actual"
| "applyContext X c (IsHostContext actual) = applyHostContext c actual"
| "applyContext X c OtherContext = c"

text \<open>\<^verbatim>\<open>&AttackContext{}\<close>: every field has its zero value.\<close>

definition zeroAttackContext :: AttackContext where
  "zeroAttackContext =
     \<lparr>ctx_Host = \<lparr>host_ContextVersion = [], host_OsType = [], host_Hostname = []\<rparr>,
      ctx_HTTP = \<lparr>http_ContextVersion = [],
         http_Request = \<lparr>req_Scheme = [], req_Method = [], req_URL = [], req_Host = [],
            req_Port = 0, req_Path = [], req_Resource = [], req_RemoteIP = [],
            req_RemotePort = 0, req_Headers = None, req_Parameters = \<lparr>Query = None\<rparr>\<rparr>,
         http_Response = \<lparr>res_Status = 0\<rparr>\<rparr>,
      ctx_Service = \<lparr>svc_ContextVersion = [], svc_Name = [], svc_Environment = [],
         svc_Version = []\<rparr>,
      ctx_Tags = None,
      ctx_Span = \<lparr>span_ContextVersion = [], span_ID = []\<rparr>,
      ctx_Trace = \<lparr>trace_ContextVersion = [], trace_ID = []\<rparr>,
      ctx_Tracer = \<lparr>tracer_ContextVersion = [], tracer_RuntimeType = [],
         tracer_RuntimeVersion = [], tracer_LibVersion = []\<rparr>\<rparr>"

definition NewAttackContext ::
  "extern \<Rightarrow> SecurityEventContext list \<Rightarrow> SecurityEventContext list \<Rightarrow> AttackContext" where
  "NewAttackContext X ctx globalCtx =
     foldl (applyContext X) (foldl (applyContext X) zeroAttackContext ctx) globalCtx"

subsection \<open>Attack events and batches\<close>

definition NewAttackEvent ::
  "extern \<Rightarrow> string \<Rightarrow> string \<Rightarrow> string \<Rightarrow> Time \<Rightarrow> AttackRuleMatch option \<Rightarrow>
   AttackContext option \<Rightarrow> env \<Rightarrow> AttackEvent \<times> env" where
  "NewAttackEvent X ruleID ruleName attackType at' match attackCtx s =
     (\<lparr>EventVersion = ''0.1.0'', EventID = NewUUID X (uuids s),
       EventType = ''appsec.threat.attack'', DetectedAt = at', Type = attackType,
       Rule = \<lparr>rule_ID = ruleID, rule_Name = ruleName\<rparr>,
       RuleMatch = match, Context = attackCtx\<rparr>,
      s\<lparr>uuids := Suc (uuids s)\<rparr>)"

text \<open>The inner loop of \<^verbatim>\<open>FromWAFAttack\<close>, over the filters of one match.\<close>

fun forFilters ::
  "extern \<Rightarrow> Time \<Rightarrow> AttackContext option \<Rightarrow> Match \<Rightarrow> Filter list \<Rightarrow>
   AttackEvent list \<Rightarrow> env \<Rightarrow> AttackEvent list \<times> env" where
  "forFilters X t attackContext match [] events s = (events, s)"
| "forFilters X t attackContext match (filter' # rest) events s =
     (let ruleMatch =
            \<lparr>rm_Operator = f_Operator filter', rm_OperatorValue = f_OperatorValue filter',
             rm_Parameters = [\<lparr>par_Name = f_BindingAccessor filter',
                                par_Value = f_ResolvedValue filter'\<rparr>],
             rm_Highlight = [f_MatchStatus filter']\<rparr>;
          (ev, s') = NewAttackEvent X (m_Rule match) (m_Flow match) (m_Flow match) t
                       (Some ruleMatch) attackContext s
      in forFilters X t attackContext match rest (events @ [ev]) s')"

text \<open>The outer loop of \<^verbatim>\<open>FromWAFAttack\<close>, over the matches.\<close>

fun forMatches ::
  "extern \<Rightarrow> Time \<Rightarrow> AttackContext option \<Rightarrow> Match list \<Rightarrow>
   AttackEvent list \<Rightarrow> env \<Rightarrow> AttackEvent list \<times> env" where
  "forMatches X t attackContext [] events s = (events, s)"
| "forMatches X t attackContext (match # rest) events s =
     (let (events', s') = forFilters X t attackContext match (m_Filter match) events s
      in forMatches X t attackContext rest events' s')"

definition FromWAFAttack ::
  "extern \<Rightarrow> Time \<Rightarrow> 8 word list \<Rightarrow> AttackContext option \<Rightarrow> env \<Rightarrow>
   (string + AttackEvent list) \<times> env" where
  "FromWAFAttack X t md attackContext s =
     (case Unmarshal X md of
        Inl err \<Rightarrow> (Inl err, s)
      | Inr matches \<Rightarrow>
          (let (events, s') = forMatches X t attackContext matches [] s
           in (Inr events, s')))"

text \<open>The inner loop of \<^verbatim>\<open>FromSecurityEvents\<close>, over the attacks of one security event.\<close>

fun forAttacks ::
  "extern \<Rightarrow> AttackContext \<Rightarrow> RawAttack list \<Rightarrow> EventBatch \<Rightarrow> env \<Rightarrow> EventBatch \<times> env" where
  "forAttacks X eventContext [] batch s = (batch, s)"
| "forAttacks X eventContext (attack # rest) batch s =
     (case FromWAFAttack X (a_Time attack) (a_Metadata attack) (Some eventContext) s of
        (Inl err, s') \<Rightarrow>
          forAttacks X eventContext rest batch (s'\<lparr>logged := logged s' @ [err]\<rparr>)
      | (Inr attacks, s') \<Rightarrow>
          forAttacks X eventContext rest (batch\<lparr>Events := Events batch @ attacks\<rparr>) s')"

text \<open>The outer loop of \<^verbatim>\<open>FromSecurityEvents\<close>, over the security events.\<close>

fun forEvents ::
  "extern \<Rightarrow> SecurityEventContext list \<Rightarrow> SecurityEvent list \<Rightarrow> EventBatch \<Rightarrow> env \<Rightarrow>
   EventBatch \<times> env" where
  "forEvents X globalContext [] batch s = (batch, s)"
| "forEvents X globalContext (event # rest) batch s =
     (let eventContext = NewAttackContext X (e_Context event) globalContext;
          (batch', s') = forAttacks X eventContext (e_Event event) batch s
      in forEvents X globalContext rest batch' s')"

definition FromSecurityEvents ::
  "extern \<Rightarrow> SecurityEvent list \<Rightarrow> SecurityEventContext list \<Rightarrow> env \<Rightarrow> EventBatch \<times> env" where
  "FromSecurityEvents X events globalContext s =
     (let id' = NewUUID X (uuids s);
          batch = \<lparr>IdempotencyKey = id', Events = []\<rparr>
      in forEvents X globalContext events batch (s\<lparr>uuids := Suc (uuids s)\<rparr>))"

section \<open>Notions used to state the properties\<close>

text \<open>
  The ancestor chain of the operation at address \<open>a\<close>: \<open>a\<close> itself, then what
  \<^verbatim>\<open>Parent()\<close> returns, repeatedly, up to the operation that has no parent.
\<close>

inductive ancestor_chain :: "Operation list \<Rightarrow> nat \<Rightarrow> nat list \<Rightarrow> bool" where
  top: "a < length h \<Longrightarrow> parent (h ! a) = None \<Longrightarrow> ancestor_chain h a [a]"
| up: "a < length h \<Longrightarrow> parent (h ! a) = Some p \<Longrightarrow> ancestor_chain h p ch \<Longrightarrow>
       ancestor_chain h a (a # ch)"

code_pred ancestor_chain .

text \<open>
  The heaps the package can build: \<^verbatim>\<open>root\<close> is allocated first and has no parent; every
  other operation was given, at its creation, a parent that existed already
  (\<^verbatim>\<open>StartOperation\<close> replaces a nil parent by \<^verbatim>\<open>root\<close>, and \<^verbatim>\<open>parent\<close> is never written
  again).
\<close>

definition wf_heap :: "Operation list \<Rightarrow> bool" where
  "wf_heap h =
     (h \<noteq> [] \<and>
      list_all (\<lambda>(i, e). case parent e of None \<Rightarrow> i = root | Some p \<Rightarrow> p < i) (enumerate 0 h))"

text \<open>
  The states the package can reach: from the initial state by calls of its exported
  functions, on operations that exist and with parents that exist. A call that does not
  return reaches nothing.
\<close>

inductive reachable :: "state \<Rightarrow> bool" where
  r_init: "reachable init"
| r_RegisterOperation:
    "reachable st \<Longrightarrow> RegisterOperation vk args res st = (r, st') \<Longrightarrow> reachable st'"
| r_StartOperation:
    "reachable st \<Longrightarrow> \<forall>p. WithParent (Some p) \<in> set opts \<longrightarrow> p < length (heap st) \<Longrightarrow>
     StartOperation args opts st = Some (r, st') \<Longrightarrow> reachable st'"
| r_Finish:
    "reachable st \<Longrightarrow> a < length (heap st) \<Longrightarrow> Finish a v st = Some (r, st') \<Longrightarrow>
     reachable st'"
| r_EmitData:
    "reachable st \<Longrightarrow> a < length (heap st) \<Longrightarrow> EmitData a v st = Some st' \<Longrightarrow>
     reachable st'"
| r_Register:
    "reachable st \<Longrightarrow> a < length (heap st) \<Longrightarrow> Register ls a st = (ids, st') \<Longrightarrow>
     reachable st'"

text \<open>
  What one node contributes to the call log when an event of kind \<open>k\<close> with payload \<open>v\<close>,
  originating at \<open>op\<close>, reaches it: one call per listener of that kind watching the type of
  \<open>v\<close>, in registration order; nothing when the node is disabled.
\<close>

definition delivered :: "event_kind \<Rightarrow> Operation list \<Rightarrow> nat \<Rightarrow> iface \<Rightarrow> nat \<Rightarrow> call list" where
  "delivered k h op v a =
     (if disabled (h ! a) then []
      else map (\<lambda>l. \<lparr>kind = k, at = a, listener = l, origin = op, payload = v\<rparr>)
             (register_of k (h ! a) (TypeOf v)))"

text \<open>A run of \<^verbatim>\<open>RegisterOperation\<close> calls; the first panic ends the run.\<close>

fun RegisterOperations ::
  "(iface \<Rightarrow> error + reflect_Type) \<Rightarrow> (iface \<times> iface) list \<Rightarrow> state \<Rightarrow> error option \<times> state" where
  "RegisterOperations vk [] st = (None, st)"
| "RegisterOperations vk ((args, res) # xs) st =
     (case RegisterOperation vk args res st of
        (Some err, st') \<Rightarrow> (Some err, st')
      | (None, st') \<Rightarrow> RegisterOperations vk xs st')"

text \<open>
  The keys of a run of registrations all validate, and the pairs of types they stand for.
\<close>

definition valid_keys :: "(iface \<Rightarrow> error + reflect_Type) \<Rightarrow> (iface \<times> iface) list \<Rightarrow> bool" where
  "valid_keys vk xs = list_all (\<lambda>(args, res). \<not> isl (vk args) \<and> \<not> isl (vk res)) xs"

definition typed ::
  "(iface \<Rightarrow> error + reflect_Type) \<Rightarrow> (iface \<times> iface) list \<Rightarrow>
   (reflect_Type \<times> reflect_Type) list" where
  "typed vk xs = map (\<lambda>(args, res). (projr (vk args), projr (vk res))) xs"

text \<open>
  The detected conditions of a list of security events, in order: one per filter of each
  match of each attack whose metadata decodes, with the instant of the attack and the
  context built for its security event.
\<close>

definition detections_of_attack ::
  "extern \<Rightarrow> AttackContext \<Rightarrow> RawAttack \<Rightarrow> (Time \<times> Match \<times> Filter \<times> AttackContext) list" where
  "detections_of_attack X c attack =
     (case Unmarshal X (a_Metadata attack) of
        Inl err \<Rightarrow> []
      | Inr matches \<Rightarrow>
          concat (map (\<lambda>m. map (\<lambda>f. (a_Time attack, m, f, c)) (m_Filter m)) matches))"

definition detections ::
  "extern \<Rightarrow> SecurityEvent list \<Rightarrow> SecurityEventContext list \<Rightarrow>
   (Time \<times> Match \<times> Filter \<times> AttackContext) list" where
  "detections X events globalContext =
     concat (map (\<lambda>event.
       concat (map (detections_of_attack X (NewAttackContext X (e_Context event) globalContext))
                 (e_Event event))) events)"

text \<open>The record of one detected condition, given the number of its UUID draw.\<close>

definition record_of :: "extern \<Rightarrow> nat \<times> Time \<times> Match \<times> Filter \<times> AttackContext \<Rightarrow> AttackEvent" where
  "record_of X = (\<lambda>(n, t, m, f, c).
     \<lparr>EventVersion = ''0.1.0'', EventID = NewUUID X n, EventType = ''appsec.threat.attack'',
      DetectedAt = t, Type = m_Flow m,
      Rule = \<lparr>rule_ID = m_Rule m, rule_Name = m_Flow m\<rparr>,
      RuleMatch = Some \<lparr>rm_Operator = f_Operator f, rm_OperatorValue = f_OperatorValue f,
                         rm_Parameters = [\<lparr>par_Name = f_BindingAccessor f,
                                            par_Value = f_ResolvedValue f\<rparr>],
                         rm_Highlight = [f_MatchStatus f]\<rparr>,
      Context = Some c\<rparr>)"

text \<open>The decoding errors of the attacks of a list of security events, in order.\<close>

definition decode_errors :: "extern \<Rightarrow> RawAttack list \<Rightarrow> string list" where
  "decode_errors X attacks =
     concat (map (\<lambda>attack. case Unmarshal X (a_Metadata attack) of
                              Inl err \<Rightarrow> [err] | Inr matches \<Rightarrow> []) attacks)"

section \<open>A running example\<close>

text \<open>
  One operation kind (\<open>Args\<close> to \<open>Res\<close>), listeners on the root, an operation under the
  root with listeners of its own, and a child of that operation.
\<close>

definition demo_key :: "iface \<Rightarrow> error + reflect_Type" where
  "demo_key v = (case v of NilValue \<Rightarrow> Inl (InvalidKey ''nil'') | Value t x \<Rightarrow> Inr (Some t))"

definition demo_listeners :: state where
  "demo_listeners =
     snd (Register [StartListener (Some ''Args'') 1, DataListener (Some ''string'') 2,
                    FinishListener (Some ''Res'') 3] root
            (snd (RegisterOperation demo_key (Value ''Args'' []) (Value ''Res'' []) init)))"

definition demo_parent :: state where
  "demo_parent =
     (case StartOperation (Value ''Args'' ''p'') [] demo_listeners of
        Some (Inr p, st) \<Rightarrow>
          snd (Register [StartListener (Some ''Args'') 4, DataListener (Some ''string'') 5,
                         FinishListener (Some ''Res'') 6, FinishListener (Some ''Other'') 7] p st)
      | _ \<Rightarrow> demo_listeners)"

definition demo_child :: state where
  "demo_child =
     (case StartOperation (Value ''Args'' ''c'') [WithParent (Some 1)] demo_parent of
        Some (Inr c, st) \<Rightarrow> snd (Register [FinishListener (Some ''Res'') 8] c st)
      | _ \<Rightarrow> demo_parent)"

definition demo_heap :: "Operation list" where
  "demo_heap =
     [\<lparr>onStart = (\<lambda>key. [])(Some ''Args'' := [1]), onData = (\<lambda>key. [])(Some ''string'' := [2]),
       onFinish = (\<lambda>key. [])(Some ''Res'' := [3]), disabled = False,
       parent = None, expectedResType = None\<rparr>,
      \<lparr>onStart = (\<lambda>key. [])(Some ''Args'' := [4]), onData = (\<lambda>key. [])(Some ''string'' := [5]),
       onFinish = (\<lambda>key. [])(Some ''Res'' := [6], Some ''Other'' := [7]), disabled = False,
       parent = Some 0, expectedResType = Some ''Res''\<rparr>,
      \<lparr>onStart = (\<lambda>key. []), onData = (\<lambda>key. []),
       onFinish = (\<lambda>key. [])(Some ''Res'' := [8]), disabled = False,
       parent = Some 1, expectedResType = Some ''Res''\<rparr>]"

definition demo_calls :: "call list" where
  "demo_calls =
     [\<lparr>kind = OnStart, at = 0, listener = 1, origin = 1, payload = Value ''Args'' ''p''\<rparr>,
      \<lparr>kind = OnStart, at = 1, listener = 4, origin = 2, payload = Value ''Args'' ''c''\<rparr>,
      \<lparr>kind = OnStart, at = 0, listener = 1, origin = 2, payload = Value ''Args'' ''c''\<rparr>]"


text \<open>The child, finished once with a result of the expected type.\<close>

definition demo_finished :: state where
  "demo_finished =
     (case Finish 2 (Value ''Res'' ''ok'') demo_child of
        Some (r, st) \<Rightarrow> st
      | None \<Rightarrow> demo_child)"

text \<open>Two more operation kinds, to register in either order.\<close>

definition demo_kinds :: "(iface \<times> iface) list" where
  "demo_kinds = [(Value ''A'' [], Value ''RA'' []), (Value ''B'' [], Value ''RB'' [])]"

text \<open>
  A UUID source that never repeats itself, a decoder that fails on empty metadata and
  otherwise finds one match with one filter per byte, and one security event with three
  attacks, the second of which does not decode.
\<close>

definition demo_filter :: Filter where
  "demo_filter =
     \<lparr>f_Operator = ''@rx'', f_OperatorValue = ''union'', f_BindingAccessor = ''query'',
      f_ResolvedValue = ''union select'', f_MatchStatus = ''union''\<rparr>"

definition demo_extern :: extern where
  "demo_extern =
     \<lparr>NewUUID = (\<lambda>n. ''uuid-'' @ replicate n (CHR ''i'')),
      Unmarshal = (\<lambda>md. if md = [] then Inl ''unexpected end of JSON input''
                          else Inr [\<lparr>m_Rule = ''rule-1'', m_Flow = ''sqli'',
                                     m_Filter = replicate (length md) demo_filter\<rparr>]),
      TrimSpace = (\<lambda>s. s),
      SplitHostPort = (\<lambda>s. None),
      Atoi = (\<lambda>s. 0)\<rparr>"

definition demo_events :: "SecurityEvent list" where
  "demo_events =
     [\<lparr>e_Event = [\<lparr>a_Time = 100, a_Metadata = [1, 2]\<rparr>,
                  \<lparr>a_Time = 101, a_Metadata = []\<rparr>,
                  \<lparr>a_Time = 102, a_Metadata = [3]\<rparr>],
       e_Context = [IsSpanContext \<lparr>TraceID = 7, SpanID = 9\<rparr>]\<rparr>]"

section \<open>Well-formed heaps and ancestor chains\<close>

lemma wf_heap_parent_less:
  "wf_heap h \<Longrightarrow> a < length h \<Longrightarrow> parent (h ! a) = Some p \<Longrightarrow> p < a"
  by (auto simp: wf_heap_def list_all_length nth_enumerate_eq split: option.splits)

lemma wf_heap_parent_None:
  "wf_heap h \<Longrightarrow> a < length h \<Longrightarrow> parent (h ! a) = None \<Longrightarrow> a = root"
  by (auto simp: wf_heap_def list_all_length nth_enumerate_eq split: option.splits)

lemma wf_heap_nonempty: "wf_heap h \<Longrightarrow> 0 < length h"
  by (simp add: wf_heap_def)

lemma wf_heap_snoc:
  assumes "wf_heap h" and "parent x = Some p" and "p < length h"
  shows "wf_heap (h @ [x])"
  using assms by (simp add: wf_heap_def enumerate_append_eq)

lemma ancestor_chain_hd: "ancestor_chain h a ch \<Longrightarrow> ch \<noteq> [] \<and> hd ch = a"
  by (induction rule: ancestor_chain.induct) auto

lemma ancestor_chain_bound:
  "ancestor_chain h a ch \<Longrightarrow> wf_heap h \<Longrightarrow> \<forall>n \<in> set ch. n \<le> a"
proof (induction rule: ancestor_chain.induct)
  case (top a h)
  then show ?case by simp
next
  case (up a h p ch)
  then have "p < a" by (simp add: wf_heap_parent_less)
  with up show ?case by fastforce
qed

lemma ancestor_chain_last: "ancestor_chain h a ch \<Longrightarrow> wf_heap h \<Longrightarrow> last ch = root"
proof (induction rule: ancestor_chain.induct)
  case (top a h)
  then show ?case by (simp add: wf_heap_parent_None)
next
  case (up a h p ch)
  then show ?case using ancestor_chain_hd[of h p ch] by auto
qed

lemma ancestor_chain_unique:
  "ancestor_chain h a ch \<Longrightarrow> ancestor_chain h a ch' \<Longrightarrow> ch' = ch"
proof (induction arbitrary: ch' rule: ancestor_chain.induct)
  case (top a h)
  from top.prems show ?case
  proof (cases rule: ancestor_chain.cases)
    case top
    then show ?thesis by simp
  next
    case (up p ch)
    with top.hyps show ?thesis by simp
  qed
next
  case (up a h p ch)
  from up.prems show ?case
  proof (cases rule: ancestor_chain.cases)
    case top
    with up.hyps show ?thesis by simp
  next
    case (up q ch2)
    with up.hyps have "q = p" by simp
    with up have "ch2 = ch" using \<open>\<And>ch'. ancestor_chain h p ch' \<Longrightarrow> ch' = ch\<close> by blast
    with up show ?thesis by simp
  qed
qed

lemma ancestor_chain_snoc:
  "ancestor_chain h a ch \<Longrightarrow> ancestor_chain (h @ [x]) a ch"
  by (induction rule: ancestor_chain.induct)
     (auto simp: nth_append intro: ancestor_chain.intros)

section \<open>What the bubbling loop computes\<close>

lemma emitEvent_heap [simp]: "heap (emitEvent k a op v st) = heap st"
  by (simp add: emitEvent_def Let_def)

lemma emitEvent_eq:
  "emitEvent k a op v st = st\<lparr>calls := calls st @ delivered k (heap st) op v a\<rparr>"
  by (simp add: emitEvent_def delivered_def Let_def)

text \<open>
  On a well-formed heap the loop returns: it visits the ancestor chain of its starting
  point, in order, and each node adds what is delivered to it.
\<close>

lemma bubble_emitEvent:
  assumes "wf_heap (heap st)" and "a < length (heap st)"
  shows "\<exists>ch. ancestor_chain (heap st) a ch \<and>
           bubble (\<lambda>n. emitEvent k n op v) (Some a) st =
             Some (st\<lparr>calls := calls st @ concat (map (delivered k (heap st) op v) ch)\<rparr>)"
  using assms
proof (induction a arbitrary: st rule: less_induct)
  case (less a)
  let ?h = "heap st"
  let ?st' = "emitEvent k a op v st"
  have st': "?st' = st\<lparr>calls := calls st @ delivered k ?h op v a\<rparr>"
    by (rule emitEvent_eq)
  have unfold: "bubble (\<lambda>n. emitEvent k n op v) (Some a) st =
      bubble (\<lambda>n. emitEvent k n op v) (parent (?h ! a)) ?st'"
    by (subst bubble.simps) (simp add: Parent_def Let_def)
  show ?case
  proof (cases "parent (?h ! a)")
    case None
    then have "ancestor_chain ?h a [a]" using less.prems by (simp add: ancestor_chain.top)
    moreover have "bubble (\<lambda>n. emitEvent k n op v) (Some a) st = Some ?st'"
      unfolding unfold None by (subst bubble.simps) simp
    ultimately show ?thesis unfolding st' by (intro exI[of _ "[a]"]) simp
  next
    case (Some p)
    then have pa: "p < a" using less.prems by (simp add: wf_heap_parent_less)
    then have "p < length (heap ?st')" using less.prems by simp
    moreover have "wf_heap (heap ?st')" using less.prems by simp
    ultimately obtain ch where ch: "ancestor_chain (heap ?st') p ch"
      and b: "bubble (\<lambda>n. emitEvent k n op v) (Some p) ?st' =
        Some (?st'\<lparr>calls := calls ?st' @ concat (map (delivered k (heap ?st') op v) ch)\<rparr>)"
      using less.IH[OF pa, of ?st'] by blast
    have "ancestor_chain ?h a (a # ch)"
      using ch Some less.prems by (simp add: ancestor_chain.up)
    moreover have "bubble (\<lambda>n. emitEvent k n op v) (Some a) st =
        Some (st\<lparr>calls := calls st @ concat (map (delivered k ?h op v) (a # ch))\<rparr>)"
      unfolding unfold Some b unfolding st' by simp
    ultimately show ?thesis by (intro exI[of _ "a # ch"]) simp
  qed
qed

lemma disable_calls [simp]: "calls (disable a st) = calls st"
  by (simp add: disable_def updateOp_def)

lemma disable_registers [simp]:
  "operationRegister (disable a st) = operationRegister st"
  "operationResRegister (disable a st) = operationResRegister st"
  by (simp_all add: disable_def updateOp_def)

lemma disable_heap:
  "heap (disable a st) =
     (heap st)[a := (heap st ! a)\<lparr>disabled := True, onStart := (\<lambda>key. []),
                                   onData := (\<lambda>key. []), onFinish := (\<lambda>key. [])\<rparr>]"
  by (simp add: disable_def updateOp_def clear_def)

section \<open>The running example, evaluated\<close>

lemmas demo_eval = init_def newOperation_def RegisterOperation_def demo_key_def
  StartOperation_def getOperationRes_def updateOp_def Parent_def root_def zeroOperation_def
  registerTo_def emitStartEvent_def emitEvent_def bubble.simps Let_def

lemma demo_child_heap: "heap demo_child = demo_heap"
  by (simp add: demo_child_def demo_parent_def demo_listeners_def demo_eval demo_heap_def)

lemma demo_child_calls: "calls demo_child = demo_calls"
  by (simp add: demo_child_def demo_parent_def demo_listeners_def demo_eval demo_calls_def)

lemma demo_child_registers:
  "operationRegister demo_child = [Some ''Args'' \<mapsto> Some ''Res'']"
  "operationResRegister demo_child = {Some ''Res''}"
  by (simp_all add: demo_child_def demo_parent_def demo_listeners_def demo_eval)

lemma wf_demo_heap: "wf_heap demo_heap"
  by (simp add: wf_heap_def demo_heap_def root_def enumerate_eq_zip)

lemma demo_chain: "ancestor_chain demo_heap 2 [2, 1, 0]"
proof -
  have "ancestor_chain demo_heap 0 [0]"
    by (rule ancestor_chain.top) (simp_all add: demo_heap_def)
  then have "ancestor_chain demo_heap 1 [1, 0]"
    by (rule ancestor_chain.up[rotated 2]) (simp_all add: demo_heap_def)
  then show ?thesis
    by (rule ancestor_chain.up[rotated 2]) (simp_all add: demo_heap_def)
qed

lemma demo_parent_heap: "heap demo_parent = take 2 demo_heap"
  by (simp add: demo_parent_def demo_listeners_def demo_eval demo_heap_def)

lemma demo_parent_calls: "calls demo_parent = take 1 demo_calls"
  by (simp add: demo_parent_def demo_listeners_def demo_eval demo_calls_def)

lemma demo_parent_register:
  "operationRegister demo_parent = [Some ''Args'' \<mapsto> Some ''Res'']"
  by (simp add: demo_parent_def demo_listeners_def demo_eval)

lemma wf_demo_parent: "wf_heap (heap demo_parent)"
  by (simp add: demo_parent_heap wf_heap_def demo_heap_def root_def enumerate_eq_zip)

section \<open>Finish\<close>

text \<open>
  C1. Let the operation \<open>o'\<close> live on a well-formed heap and let the runtime type of the
  result \<open>r\<close> equal the expected result type of \<open>o'\<close>. Then \<^verbatim>\<open>Finish\<close> returns without
  panic; the calls it adds to the log are those delivered for a finish event to the nodes
  of the ancestor chain of \<open>o'\<close>, which starts at \<open>o'\<close> and ends at the root, node after
  node in that order and to no other node; afterwards \<open>o'\<close> is disabled with its start,
  data and finish collections empty, and nothing else of the state has changed.
\<close>

theorem Finish_bubbles_then_disables:
  assumes "wf_heap (heap st)" and "o' < length (heap st)"
    and "TypeOf r = expectedResType (heap st ! o')"
  shows "\<exists>ch st'. Finish o' r st = Some (None, st') \<and>
           ancestor_chain (heap st) o' ch \<and> hd ch = o' \<and> last ch = root \<and>
           calls st' = calls st @ concat (map (delivered OnFinish (heap st) o' r) ch) \<and>
           disabled (heap st' ! o') \<and>
           onStart (heap st' ! o') = (\<lambda>key. []) \<and>
           onData (heap st' ! o') = (\<lambda>key. []) \<and>
           onFinish (heap st' ! o') = (\<lambda>key. []) \<and>
           parent (heap st' ! o') = parent (heap st ! o') \<and>
           expectedResType (heap st' ! o') = expectedResType (heap st ! o') \<and>
           length (heap st') = length (heap st) \<and>
           (\<forall>a. a \<noteq> o' \<longrightarrow> heap st' ! a = heap st ! a) \<and>
           operationRegister st' = operationRegister st \<and>
           operationResRegister st' = operationResRegister st"
proof -
  obtain ch where ch: "ancestor_chain (heap st) o' ch"
    and b: "bubble (\<lambda>n. emitEvent OnFinish n o' r) (Some o') st =
        Some (st\<lparr>calls := calls st @ concat (map (delivered OnFinish (heap st) o' r) ch)\<rparr>)"
    using bubble_emitEvent[OF assms(1,2)] by blast
  let ?st1 = "st\<lparr>calls := calls st @ concat (map (delivered OnFinish (heap st) o' r) ch)\<rparr>"
  have body: "(\<lambda>op. emitFinishEvent op o' r) = (\<lambda>n. emitEvent OnFinish n o' r)"
    by (simp add: emitFinishEvent_def fun_eq_iff)
  have fin: "Finish o' r st = Some (None, disable o' ?st1)"
    using assms(3) by (simp add: Finish_def validateExpectedRes_def body b)
  have "hd ch = o'" "last ch = root"
    using ch assms(1) by (simp_all add: ancestor_chain_hd ancestor_chain_last)
  then show ?thesis
    using ch fin assms(2)
    by (intro exI[of _ ch] exI[of _ "disable o' ?st1"]) (simp add: disable_heap)
qed

theorem Finish_bubbles_then_disables_witness:
  "wf_heap (heap demo_child) \<and> 2 < length (heap demo_child) \<and>
   TypeOf (Value ''Res'' ''ok'') = expectedResType (heap demo_child ! 2) \<and>
   (\<exists>st'. Finish 2 (Value ''Res'' ''ok'') demo_child = Some (None, st') \<and>
      calls st' = calls demo_child @
        [\<lparr>kind = OnFinish, at = 2, listener = 8, origin = 2, payload = Value ''Res'' ''ok''\<rparr>,
         \<lparr>kind = OnFinish, at = 1, listener = 6, origin = 2, payload = Value ''Res'' ''ok''\<rparr>,
         \<lparr>kind = OnFinish, at = 0, listener = 3, origin = 2, payload = Value ''Res'' ''ok''\<rparr>] \<and>
      disabled (heap st' ! 2) \<and>
      onStart (heap st' ! 2) = (\<lambda>key. []) \<and>
      onData (heap st' ! 2) = (\<lambda>key. []) \<and>
      onFinish (heap st' ! 2) = (\<lambda>key. []) \<and>
      heap st' ! 1 = heap demo_child ! 1 \<and> heap st' ! 0 = heap demo_child ! 0)"
proof -
  let ?r = "Value ''Res'' ''ok''"
  have h: "wf_heap (heap demo_child)" "2 < length (heap demo_child)"
    "TypeOf ?r = expectedResType (heap demo_child ! 2)"
    by (simp_all add: demo_child_heap wf_demo_heap) (simp_all add: demo_heap_def)
  from Finish_bubbles_then_disables[OF h] obtain ch st' where
    fin: "Finish 2 ?r demo_child = Some (None, st')"
    and ch: "ancestor_chain (heap demo_child) 2 ch"
    and c: "calls st' = calls demo_child @
        concat (map (delivered OnFinish (heap demo_child) 2 ?r) ch)"
    and d: "disabled (heap st' ! 2)" "onStart (heap st' ! 2) = (\<lambda>key. [])"
      "onData (heap st' ! 2) = (\<lambda>key. [])" "onFinish (heap st' ! 2) = (\<lambda>key. [])"
    and rest: "\<forall>a. a \<noteq> 2 \<longrightarrow> heap st' ! a = heap demo_child ! a"
    by blast
  have "ch = [2, 1, 0]"
    using ch demo_chain by (simp add: demo_child_heap ancestor_chain_unique)
  then have "calls st' = calls demo_child @
        [\<lparr>kind = OnFinish, at = 2, listener = 8, origin = 2, payload = ?r\<rparr>,
         \<lparr>kind = OnFinish, at = 1, listener = 6, origin = 2, payload = ?r\<rparr>,
         \<lparr>kind = OnFinish, at = 0, listener = 3, origin = 2, payload = ?r\<rparr>]"
    using c by (simp add: demo_child_heap demo_heap_def delivered_def)
  moreover have "heap st' ! 1 = heap demo_child ! 1" "heap st' ! 0 = heap demo_child ! 0"
    using rest by simp_all
  ultimately show ?thesis using h fin d by blast
qed


text \<open>
  C5. When the runtime type of the result differs from the expected result type of the
  operation, \<^verbatim>\<open>Finish\<close> panics with the error of \<^verbatim>\<open>validateExpectedRes\<close>, and the call log
  is what it was: no listener of any node has been invoked.
\<close>

theorem Finish_wrong_type_panics_silently:
  assumes "TypeOf r \<noteq> expectedResType (heap st ! o')"
  shows "\<exists>st'. Finish o' r st =
             Some (Some (UnexpectedResult (expectedResType (heap st ! o')) (TypeOf r)), st') \<and>
           calls st' = calls st"
  using assms by (simp add: Finish_def validateExpectedRes_def)

theorem Finish_wrong_type_panics_silently_witness:
  "TypeOf (Value ''Bad'' ''x'') \<noteq> expectedResType (heap demo_child ! 2) \<and>
   (\<exists>st'. Finish 2 (Value ''Bad'' ''x'') demo_child =
       Some (Some (UnexpectedResult (Some ''Res'') (Some ''Bad'')), st') \<and>
     calls st' = calls demo_child)"
proof -
  have h: "TypeOf (Value ''Bad'' ''x'') \<noteq> expectedResType (heap demo_child ! 2)"
    by (simp add: demo_child_heap demo_heap_def)
  have "expectedResType (heap demo_child ! 2) = Some ''Res''"
    by (simp add: demo_child_heap demo_heap_def)
  with Finish_wrong_type_panics_silently[OF h] h show ?thesis by simp
qed

text \<open>
  C9. When the runtime type of the result differs from the expected result type,
  \<^verbatim>\<open>Finish\<close> panics, and the state that the panic leaves has the operation disabled with
  its start, data and finish collections empty: the deferred \<^verbatim>\<open>disable\<close> has run. An
  operation that was not disabled before is therefore changed by the failed call.
\<close>

theorem Finish_wrong_type_still_disables:
  assumes "o' < length (heap st)"
    and "TypeOf r \<noteq> expectedResType (heap st ! o')"
  shows "\<exists>err st'. Finish o' r st = Some (Some err, st') \<and>
           disabled (heap st' ! o') \<and>
           onStart (heap st' ! o') = (\<lambda>key. []) \<and>
           onData (heap st' ! o') = (\<lambda>key. []) \<and>
           onFinish (heap st' ! o') = (\<lambda>key. []) \<and>
           (\<not> disabled (heap st ! o') \<longrightarrow> heap st' \<noteq> heap st)"
proof -
  let ?st' = "disable o' st"
  have "Finish o' r st =
      Some (Some (UnexpectedResult (expectedResType (heap st ! o')) (TypeOf r)), ?st')"
    using assms(2) by (simp add: Finish_def validateExpectedRes_def)
  moreover have "disabled (heap ?st' ! o')" "onStart (heap ?st' ! o') = (\<lambda>key. [])"
    "onData (heap ?st' ! o') = (\<lambda>key. [])" "onFinish (heap ?st' ! o') = (\<lambda>key. [])"
    using assms(1) by (simp_all add: disable_heap)
  moreover have "heap ?st' \<noteq> heap st" if "\<not> disabled (heap st ! o')"
  proof
    assume "heap ?st' = heap st"
    then have "disabled (heap ?st' ! o') = disabled (heap st ! o')" by simp
    with that assms(1) show False by (simp add: disable_heap)
  qed
  ultimately show ?thesis by blast
qed

theorem Finish_wrong_type_still_disables_witness:
  "2 < length (heap demo_child) \<and>
   TypeOf (Value ''Bad'' ''x'') \<noteq> expectedResType (heap demo_child ! 2) \<and>
   \<not> disabled (heap demo_child ! 2) \<and>
   onFinish (heap demo_child ! 2) (Some ''Res'') = [8] \<and>
   (\<exists>err st'. Finish 2 (Value ''Bad'' ''x'') demo_child = Some (Some err, st') \<and>
      disabled (heap st' ! 2) \<and>
      onStart (heap st' ! 2) = (\<lambda>key. []) \<and>
      onData (heap st' ! 2) = (\<lambda>key. []) \<and>
      onFinish (heap st' ! 2) = (\<lambda>key. []) \<and>
      heap st' \<noteq> heap demo_child)"
proof -
  have h: "2 < length (heap demo_child)"
    "TypeOf (Value ''Bad'' ''x'') \<noteq> expectedResType (heap demo_child ! 2)"
    by (simp_all add: demo_child_heap demo_heap_def)
  have a: "\<not> disabled (heap demo_child ! 2)" "onFinish (heap demo_child ! 2) (Some ''Res'') = [8]"
    by (simp_all add: demo_child_heap demo_heap_def)
  from Finish_wrong_type_still_disables[OF h] h a show ?thesis by blast
qed

section \<open>StartOperation\<close>

lemma parent_foldl_applyOption:
  "parent (foldl (\<lambda>op opt. applyOption opt op) e opts) = Some p \<Longrightarrow>
     parent e = Some p \<or> WithParent (Some p) \<in> set opts"
proof (induction opts arbitrary: e)
  case Nil
  then show ?case by simp
next
  case (Cons opt opts)
  from Cons.IH[OF Cons.prems[simplified]] show ?case
    by (cases opt) auto
qed

lemma parent_update_same:
  "parent (x::Operation) = p \<Longrightarrow> x\<lparr>expectedResType := r, parent := p\<rparr> = x\<lparr>expectedResType := r\<rparr>"
  by (cases x) simp

lemma disabled_foldl_applyOption:
  "disabled (foldl (\<lambda>op opt. applyOption opt op) e opts) = disabled e"
proof (induction opts arbitrary: e)
  case Nil
  then show ?case by simp
next
  case (Cons opt opts)
  then show ?case by (cases opt) simp
qed

lemma StartOperation_result:
  assumes "wf_heap (heap st)"
    and "operationRegister st (TypeOf args) = Some res"
    and "\<forall>p. WithParent (Some p) \<in> set opts \<longrightarrow> p < length (heap st)"
  shows "\<exists>ch st'. StartOperation args opts st = Some (Inr (length (heap st)), st') \<and>
           ancestor_chain (heap st') (length (heap st)) (length (heap st) # ch) \<and>
           last ch = root \<and> length (heap st) \<notin> set ch \<and>
           calls st' = calls st @
             concat (map (delivered OnStart (heap st') (length (heap st)) args) ch) \<and>
           (\<forall>c \<in> set (drop (length (calls st)) (calls st')).
              at c \<in> set ch \<and> at c \<noteq> length (heap st)) \<and>
           length (heap st') = Suc (length (heap st)) \<and>
           take (length (heap st)) (heap st') = heap st \<and>
           expectedResType (heap st' ! length (heap st)) = res \<and>
           \<not> disabled (heap st' ! length (heap st)) \<and>
           wf_heap (heap st')"
proof -
  let ?n = "length (heap st)"
  let ?e0 = "foldl (\<lambda>op opt. applyOption opt op) zeroOperation opts"
  define P0 where "P0 = (case parent ?e0 of None \<Rightarrow> root | Some p \<Rightarrow> p)"
  define e where "e = ?e0\<lparr>expectedResType := res, parent := Some P0\<rparr>"
  define st3 where "st3 = st\<lparr>heap := heap st @ [e]\<rparr>"
  have P0: "P0 < ?n"
  proof (cases "parent ?e0")
    case None
    then show ?thesis using wf_heap_nonempty[OF assms(1)] by (simp add: P0_def root_def)
  next
    case (Some p)
    then have "WithParent (Some p) \<in> set opts"
      using parent_foldl_applyOption[of zeroOperation opts p] by (simp add: zeroOperation_def)
    then show ?thesis using assms(3) Some by (simp add: P0_def)
  qed
  have pe: "parent e = Some P0" by (simp add: e_def)
  have wf3: "wf_heap (heap st3)"
    using wf_heap_snoc[OF assms(1) pe P0] by (simp add: st3_def)
  have "P0 < length (heap st3)" using P0 by (simp add: st3_def)
  from bubble_emitEvent[OF wf3 this, of OnStart ?n args] obtain ch where
    ch: "ancestor_chain (heap st3) P0 ch"
    and b: "bubble (\<lambda>n. emitEvent OnStart n ?n args) (Some P0) st3 =
       Some (st3\<lparr>calls := calls st3 @ concat (map (delivered OnStart (heap st3) ?n args) ch)\<rparr>)"
    by blast
  let ?st' = "st3\<lparr>calls := calls st3 @ concat (map (delivered OnStart (heap st3) ?n args) ch)\<rparr>"
  have body: "(\<lambda>op. emitStartEvent op ?n args) = (\<lambda>n. emitEvent OnStart n ?n args)"
    by (simp add: emitStartEvent_def fun_eq_iff)
  have start: "StartOperation args opts st = Some (Inr ?n, ?st')"
  proof (cases "parent ?e0")
    case None
    then have "P0 = root" by (simp add: P0_def)
    with b None assms(2) show ?thesis
      unfolding st3_def e_def
      by (simp add: StartOperation_def getOperationRes_def newOperation_def updateOp_def
          Parent_def Let_def body)
  next
    case (Some p)
    then have "P0 = p" by (simp add: P0_def)
    with b Some assms(2) show ?thesis
      unfolding st3_def e_def
      by (simp add: parent_update_same add: StartOperation_def getOperationRes_def newOperation_def updateOp_def
          Parent_def Let_def body)
  qed
  have chain: "ancestor_chain (heap ?st') ?n (?n # ch)"
    using ch pe by (auto intro!: ancestor_chain.up[where p = P0] simp: st3_def)
  have bound: "\<forall>x \<in> set ch. x \<le> P0"
    using ancestor_chain_bound[OF ch wf3] .
  then have notin: "?n \<notin> set ch" using P0 by auto
  have lastch: "last ch = root" using ancestor_chain_last[OF ch wf3] .
  have ats: "\<forall>c \<in> set (concat (map (delivered OnStart (heap st3) ?n args) ch)). at c \<in> set ch"
    by (auto simp: delivered_def)
  show ?thesis
    apply (intro exI[of _ ch] exI[of _ ?st'] conjI)
    subgoal by (rule start)
    subgoal by (rule chain)
    subgoal by (rule lastch)
    subgoal by (rule notin)
    subgoal by (simp add: st3_def)
    subgoal using ats notin by (simp add: st3_def) metis
    subgoal by (simp add: st3_def)
    subgoal by (simp add: st3_def)
    subgoal by (simp add: st3_def e_def)
    subgoal by (simp add: st3_def e_def disabled_foldl_applyOption zeroOperation_def)
    subgoal using wf3 by simp
    done
qed

text \<open>
  C2. On a well-formed heap, for an argument whose type is registered and options whose
  parents exist, \<^verbatim>\<open>StartOperation\<close> returns a new operation \<open>O\<close> at the next free address.
  The ancestor chain of \<open>O\<close> is \<open>O\<close> followed by a chain \<open>ch\<close> that starts at the parent of
  \<open>O\<close> and ends at the root; the calls added to the log are those delivered for a start
  event to the nodes of \<open>ch\<close>, in that order; \<open>O\<close> is not in \<open>ch\<close> and none of the added calls
  is made by \<open>O\<close>.
\<close>

theorem StartOperation_bubbles_to_ancestors:
  assumes "wf_heap (heap st)"
    and "operationRegister st (TypeOf args) = Some res"
    and "\<forall>p. WithParent (Some p) \<in> set opts \<longrightarrow> p < length (heap st)"
  shows "\<exists>ch st'. StartOperation args opts st = Some (Inr (length (heap st)), st') \<and>
           ancestor_chain (heap st') (length (heap st)) (length (heap st) # ch) \<and>
           last ch = root \<and> length (heap st) \<notin> set ch \<and>
           calls st' = calls st @
             concat (map (delivered OnStart (heap st') (length (heap st)) args) ch) \<and>
           (\<forall>c \<in> set (drop (length (calls st)) (calls st')).
              at c \<in> set ch \<and> at c \<noteq> length (heap st)) \<and>
           length (heap st') = Suc (length (heap st)) \<and>
           take (length (heap st)) (heap st') = heap st \<and>
           expectedResType (heap st' ! length (heap st)) = res \<and>
           \<not> disabled (heap st' ! length (heap st)) \<and>
           wf_heap (heap st')"
  using assms by (rule StartOperation_result)

theorem StartOperation_bubbles_to_ancestors_witness:
  "wf_heap (heap demo_parent) \<and>
   operationRegister demo_parent (TypeOf (Value ''Args'' ''c'')) = Some (Some ''Res'') \<and>
   1 < length (heap demo_parent) \<and>
   (\<exists>ch st'. StartOperation (Value ''Args'' ''c'') [WithParent (Some 1)] demo_parent =
        Some (Inr 2, st') \<and>
      ancestor_chain (heap st') 2 (2 # ch) \<and> last ch = root \<and> 2 \<notin> set ch \<and>
      calls st' = calls demo_parent @
        concat (map (delivered OnStart (heap st') 2 (Value ''Args'' ''c'')) ch) \<and>
      expectedResType (heap st' ! 2) = Some ''Res'' \<and> wf_heap (heap st')) \<and>
   map_option (\<lambda>(r, s). (r, drop (length (calls demo_parent)) (calls s)))
     (StartOperation (Value ''Args'' ''c'') [WithParent (Some 1)] demo_parent) =
     Some (Inr 2,
       [\<lparr>kind = OnStart, at = 1, listener = 4, origin = 2, payload = Value ''Args'' ''c''\<rparr>,
        \<lparr>kind = OnStart, at = 0, listener = 1, origin = 2, payload = Value ''Args'' ''c''\<rparr>])"
proof -
  let ?args = "Value ''Args'' ''c''"
  have len: "length (heap demo_parent) = 2"
    by (simp add: demo_parent_heap demo_heap_def)
  have h: "wf_heap (heap demo_parent)"
    "operationRegister demo_parent (TypeOf ?args) = Some (Some ''Res'')"
    "\<forall>p. WithParent (Some p) \<in> set [WithParent (Some 1)] \<longrightarrow> p < length (heap demo_parent)"
    by (simp_all add: wf_demo_parent demo_parent_register len)
  have ev: "map_option (\<lambda>(r, s). (r, drop (length (calls demo_parent)) (calls s)))
     (StartOperation ?args [WithParent (Some 1)] demo_parent) =
     Some (Inr 2,
       [\<lparr>kind = OnStart, at = 1, listener = 4, origin = 2, payload = ?args\<rparr>,
        \<lparr>kind = OnStart, at = 0, listener = 1, origin = 2, payload = ?args\<rparr>])"
    by (simp add: demo_eval demo_parent_heap demo_parent_register demo_heap_def)
  from StartOperation_bubbles_to_ancestors[OF h] h(1,2) len ev show ?thesis
    by (simp del: TypeOf.simps) blast
qed

section \<open>Every reachable state has a well-formed heap\<close>

lemma wf_heap_init: "wf_heap (heap init)"
  by (simp add: init_def newOperation_def wf_heap_def zeroOperation_def root_def)

lemma wf_heap_iff:
  "wf_heap h \<longleftrightarrow>
     h \<noteq> [] \<and> (\<forall>n < length h. case parent (h ! n) of None \<Rightarrow> n = root | Some p \<Rightarrow> p < n)"
  by (simp add: wf_heap_def list_all_length nth_enumerate_eq)

lemma wf_heap_update:
  assumes "wf_heap h" and "parent e = parent (h ! a)"
  shows "wf_heap (h[a := e])"
proof -
  have "parent (h[a := e] ! n) = parent (h ! n)" if "n < length h" for n
    using that assms(2) by (cases "n = a") simp_all
  with assms(1) show ?thesis by (simp add: wf_heap_iff)
qed

lemma wf_heap_disable: "wf_heap (heap st) \<Longrightarrow> wf_heap (heap (disable a st))"
  by (simp add: disable_heap wf_heap_update)

lemma parent_addListener [simp]: "parent (addListener l e) = parent e"
  by (cases l) simp_all

lemma wf_heap_Register:
  "wf_heap (heap st) \<Longrightarrow> wf_heap (heap (snd (Register ls a st)))"
proof (induction ls arbitrary: st)
  case Nil
  then show ?case by simp
next
  case (Cons l ls)
  have "wf_heap (heap (snd (registerTo l a st)))"
    using Cons.prems by (simp add: registerTo_def updateOp_def wf_heap_update)
  from Cons.IH[OF this] show ?case by (simp add: split_def Let_def)
qed

lemma RegisterOperation_heap:
  "RegisterOperation vk args res st = (r, st') \<Longrightarrow> heap st' = heap st"
  by (auto simp: RegisterOperation_def split: sum.splits option.splits)

lemma reachable_wf_heap: "reachable st \<Longrightarrow> wf_heap (heap st)"
proof (induction rule: reachable.induct)
  case r_init
  show ?case by (rule wf_heap_init)
next
  case (r_RegisterOperation st vk args res r st')
  then show ?case by (simp add: RegisterOperation_heap)
next
  case (r_StartOperation st opts args r st')
  show ?case
  proof (cases "operationRegister st (TypeOf args)")
    case None
    with r_StartOperation show ?thesis
      by (simp add: StartOperation_def getOperationRes_def)
  next
    case (Some res)
    from StartOperation_result[OF r_StartOperation.IH Some r_StartOperation.hyps(2)]
      r_StartOperation.hyps(3)
    show ?thesis by auto
  qed
next
  case (r_Finish st a v r st')
  show ?case
  proof (cases "TypeOf v = expectedResType (heap st ! a)")
    case True
    from bubble_emitEvent[OF r_Finish.IH r_Finish.hyps(2), of OnFinish a v] obtain ch where
      "bubble (\<lambda>n. emitEvent OnFinish n a v) (Some a) st =
        Some (st\<lparr>calls := calls st @ concat (map (delivered OnFinish (heap st) a v) ch)\<rparr>)"
      by blast
    moreover have "(\<lambda>op. emitFinishEvent op a v) = (\<lambda>n. emitEvent OnFinish n a v)"
      by (simp add: emitFinishEvent_def fun_eq_iff)
    ultimately have "st' = disable a
        (st\<lparr>calls := calls st @ concat (map (delivered OnFinish (heap st) a v) ch)\<rparr>)"
      using r_Finish.hyps(3) True by (simp add: Finish_def validateExpectedRes_def)
    then show ?thesis using r_Finish.IH by (simp add: wf_heap_disable)
  next
    case False
    then have "st' = disable a st"
      using r_Finish.hyps(3) by (simp add: Finish_def validateExpectedRes_def)
    then show ?thesis using r_Finish.IH by (simp add: wf_heap_disable)
  qed
next
  case (r_EmitData st a v st')
  show ?case
  proof (cases "disabled (heap st ! a)")
    case True
    with r_EmitData show ?thesis by (simp add: EmitData_def)
  next
    case False
    from bubble_emitEvent[OF r_EmitData.IH r_EmitData.hyps(2), of OnData a v] obtain ch where
      "bubble (\<lambda>n. emitEvent OnData n a v) (Some a) st =
        Some (st\<lparr>calls := calls st @ concat (map (delivered OnData (heap st) a v) ch)\<rparr>)"
      by blast
    moreover have "(\<lambda>op. emitDataEvent op a v) = (\<lambda>n. emitEvent OnData n a v)"
      by (simp add: emitDataEvent_def fun_eq_iff)
    ultimately have "heap st' = heap st"
      using r_EmitData.hyps(3) False by (auto simp: EmitData_def)
    then show ?thesis using r_EmitData.IH by simp
  qed
next
  case (r_Register st a ls ids st')
  from wf_heap_Register[OF r_Register.IH, of ls a] r_Register.hyps(3) show ?case by simp
qed

section \<open>EmitData and Register\<close>

text \<open>
  C3. On a well-formed heap, for an operation \<open>O\<close> that is not disabled, \<^verbatim>\<open>EmitData\<close>
  returns; the calls it adds to the log are those delivered for a data event with the
  given payload to the nodes of the ancestor chain of \<open>O\<close>, node after node in the order
  of the chain, which starts at \<open>O\<close> and ends at the root; nothing else changes.
\<close>

theorem EmitData_bubbles_self_to_root:
  assumes "wf_heap (heap st)" and "o' < length (heap st)"
    and "\<not> disabled (heap st ! o')"
  shows "\<exists>ch. ancestor_chain (heap st) o' ch \<and> hd ch = o' \<and> last ch = root \<and>
           EmitData o' d st =
             Some (st\<lparr>calls := calls st @ concat (map (delivered OnData (heap st) o' d) ch)\<rparr>)"
proof -
  obtain ch where ch: "ancestor_chain (heap st) o' ch"
    and b: "bubble (\<lambda>n. emitEvent OnData n o' d) (Some o') st =
        Some (st\<lparr>calls := calls st @ concat (map (delivered OnData (heap st) o' d) ch)\<rparr>)"
    using bubble_emitEvent[OF assms(1,2)] by blast
  have body: "(\<lambda>op. emitDataEvent op o' d) = (\<lambda>n. emitEvent OnData n o' d)"
    by (simp add: emitDataEvent_def fun_eq_iff)
  have "EmitData o' d st =
      Some (st\<lparr>calls := calls st @ concat (map (delivered OnData (heap st) o' d) ch)\<rparr>)"
    using assms(3) by (simp add: EmitData_def body b)
  moreover have "hd ch = o'" "last ch = root"
    using ch assms(1) by (simp_all add: ancestor_chain_hd ancestor_chain_last)
  ultimately show ?thesis using ch by blast
qed

theorem EmitData_bubbles_self_to_root_witness:
  "wf_heap (heap demo_child) \<and> 2 < length (heap demo_child) \<and>
   \<not> disabled (heap demo_child ! 2) \<and>
   EmitData 2 (Value ''string'' ''x'') demo_child =
     Some (demo_child\<lparr>calls := calls demo_child @
       [\<lparr>kind = OnData, at = 1, listener = 5, origin = 2, payload = Value ''string'' ''x''\<rparr>,
        \<lparr>kind = OnData, at = 0, listener = 2, origin = 2, payload = Value ''string'' ''x''\<rparr>]\<rparr>)"
proof -
  let ?d = "Value ''string'' ''x''"
  have h: "wf_heap (heap demo_child)" "2 < length (heap demo_child)"
    "\<not> disabled (heap demo_child ! 2)"
    by (simp_all add: demo_child_heap wf_demo_heap) (simp_all add: demo_heap_def)
  from EmitData_bubbles_self_to_root[OF h, of ?d] obtain ch where
    ch: "ancestor_chain (heap demo_child) 2 ch"
    and e: "EmitData 2 ?d demo_child =
      Some (demo_child\<lparr>calls := calls demo_child @
        concat (map (delivered OnData (heap demo_child) 2 ?d) ch)\<rparr>)"
    by blast
  have "ch = [2, 1, 0]"
    using ch demo_chain by (simp add: demo_child_heap ancestor_chain_unique)
  then have "concat (map (delivered OnData (heap demo_child) 2 ?d) ch) =
       [\<lparr>kind = OnData, at = 1, listener = 5, origin = 2, payload = ?d\<rparr>,
        \<lparr>kind = OnData, at = 0, listener = 2, origin = 2, payload = ?d\<rparr>]"
    by (simp add: demo_child_heap demo_heap_def delivered_def)
  with e h show ?thesis by simp
qed

lemma Register_disabled:
  "disabled (heap st ! o') \<Longrightarrow> Register ls o' st = (map Unregister ls, st)"
  by (induction ls) (simp_all add: registerTo_def)

text \<open>
  C6. On a disabled operation \<open>O\<close>, \<^verbatim>\<open>EmitData\<close> returns the state unchanged, so it
  invokes no listener of any node; \<^verbatim>\<open>Register\<close> returns the state unchanged too, so it adds
  no listener, and after it no event of any kind, origin or payload delivers anything at
  \<open>O\<close>.
\<close>

theorem Disabled_EmitData_Register_noop:
  assumes "disabled (heap st ! o')"
  shows "EmitData o' d st = Some st \<and>
         snd (Register ls o' st) = st \<and>
         delivered k (heap (snd (Register ls o' st))) op v o' = []"
  using assms by (simp add: EmitData_def Register_disabled delivered_def)

lemma demo_finished_heap:
  "heap demo_finished =
     demo_heap[2 := \<lparr>onStart = (\<lambda>key. []), onData = (\<lambda>key. []), onFinish = (\<lambda>key. []),
                     disabled = True, parent = Some 1, expectedResType = Some ''Res''\<rparr>]"
  by (simp add: demo_finished_def Finish_def validateExpectedRes_def emitFinishEvent_def
      emitEvent_def bubble.simps Parent_def Let_def disable_heap demo_child_heap demo_heap_def)

lemma demo_finished_calls:
  "calls demo_finished = demo_calls @
     [\<lparr>kind = OnFinish, at = 2, listener = 8, origin = 2, payload = Value ''Res'' ''ok''\<rparr>,
      \<lparr>kind = OnFinish, at = 1, listener = 6, origin = 2, payload = Value ''Res'' ''ok''\<rparr>,
      \<lparr>kind = OnFinish, at = 0, listener = 3, origin = 2, payload = Value ''Res'' ''ok''\<rparr>]"
  by (simp add: demo_finished_def Finish_def validateExpectedRes_def emitFinishEvent_def
      emitEvent_def bubble.simps Parent_def Let_def demo_child_heap demo_child_calls
      demo_heap_def)

theorem Disabled_EmitData_Register_noop_witness:
  "disabled (heap demo_finished ! 2) \<and>
   EmitData 2 (Value ''string'' ''x'') demo_finished = Some demo_finished \<and>
   snd (Register [DataListener (Some ''string'') 9, FinishListener (Some ''Res'') 10] 2
          demo_finished) = demo_finished \<and>
   delivered OnData
     (heap (snd (Register [DataListener (Some ''string'') 9, FinishListener (Some ''Res'') 10] 2
                   demo_finished))) 2 (Value ''string'' ''x'') 2 = []"
proof -
  have h: "disabled (heap demo_finished ! 2)"
    by (simp add: demo_finished_heap demo_heap_def)
  from Disabled_EmitData_Register_noop[OF h] h show ?thesis by blast
qed

section \<open>Finishing twice\<close>

text \<open>
  C4. Finishing an operation twice. The specification asks that a second \<^verbatim>\<open>Finish\<close> of
  an operation already finished, with a result of the expected type, invoke no finish
  listener, neither its own nor an ancestor's, and not panic. The code does not panic, but
  it bubbles again: on the running example the child is finished and disabled, and
  finishing it once more with a result of the expected type adds two calls to the log, the
  finish listeners of its parent and of the root being invoked a second time. \<^verbatim>\<open>Finish\<close>
  never reads the \<^verbatim>\<open>disabled\<close> flag of the operation it finishes, as \<^verbatim>\<open>EmitData\<close> does.
\<close>

theorem Finish_twice_reinvokes_ancestors:
  "disabled (heap demo_finished ! 2) \<and>
   TypeOf (Value ''Res'' ''again'') = expectedResType (heap demo_finished ! 2) \<and>
   map_option (\<lambda>(r, st). (r, drop (length (calls demo_finished)) (calls st)))
     (Finish 2 (Value ''Res'' ''again'') demo_finished) =
     Some (None,
       [\<lparr>kind = OnFinish, at = 1, listener = 6, origin = 2, payload = Value ''Res'' ''again''\<rparr>,
        \<lparr>kind = OnFinish, at = 0, listener = 3, origin = 2, payload = Value ''Res'' ''again''\<rparr>])"
  by (simp add: Finish_def validateExpectedRes_def emitFinishEvent_def
      emitEvent_def bubble.simps Parent_def Let_def demo_finished_heap demo_heap_def)

section \<open>RegisterOperation\<close>

lemma RegisterOperation_duplicate:
  assumes "vk args = Inr a" and "operationRegister st a = Some old"
  shows "\<exists>err. RegisterOperation vk args res st = (Some err, st)"
  using assms by (cases "vk res") (simp_all add: RegisterOperation_def)

lemma RegisterOperation_fresh:
  assumes "vk args = Inr a" and "vk res = Inr r" and "operationRegister st a = None"
  shows "RegisterOperation vk args res st =
           (None, st\<lparr>operationRegister := (operationRegister st)(a \<mapsto> r),
                     operationResRegister := insert r (operationResRegister st)\<rparr>)"
  using assms by (simp add: RegisterOperation_def)

lemma RegisterOperations_distinct:
  assumes "valid_keys vk xs" and "distinct (map fst (typed vk xs))"
    and "\<forall>a \<in> fst ` set (typed vk xs). operationRegister st a = None"
  shows "RegisterOperations vk xs st =
           (None, st\<lparr>operationRegister := operationRegister st ++ map_of (typed vk xs),
                     operationResRegister := operationResRegister st \<union> snd ` set (typed vk xs)\<rparr>)"
  using assms
proof (induction xs arbitrary: st)
  case Nil
  then show ?case by (simp add: typed_def)
next
  case (Cons x xs)
  obtain args res where x: "x = (args, res)" by (cases x)
  from Cons.prems(1) obtain a r where a: "vk args = Inr a" and r: "vk res = Inr r"
    by (cases "vk args"; cases "vk res") (auto simp: valid_keys_def x)
  have tx: "typed vk (x # xs) = (a, r) # typed vk xs"
    by (simp add: typed_def x a r)
  have fresh: "operationRegister st a = None" using Cons.prems(3) by (simp add: tx)
  let ?st1 = "st\<lparr>operationRegister := (operationRegister st)(a \<mapsto> r),
                 operationResRegister := insert r (operationResRegister st)\<rparr>"
  have step: "RegisterOperation vk args res st = (None, ?st1)"
    by (rule RegisterOperation_fresh[OF a r fresh])
  have notin: "a \<notin> fst ` set (typed vk xs)" using Cons.prems(2) by (simp add: tx)
  have "valid_keys vk xs" using Cons.prems(1) by (simp add: valid_keys_def)
  moreover have "distinct (map fst (typed vk xs))" using Cons.prems(2) by (simp add: tx)
  moreover have "\<forall>b \<in> fst ` set (typed vk xs). operationRegister ?st1 b = None"
    using Cons.prems(3) notin by (auto simp: tx)
  ultimately have IH: "RegisterOperations vk xs ?st1 =
      (None, ?st1\<lparr>operationRegister := operationRegister ?st1 ++ map_of (typed vk xs),
                   operationResRegister := operationResRegister ?st1 \<union> snd ` set (typed vk xs)\<rparr>)"
    by (rule Cons.IH)
  have "a \<notin> dom (map_of (typed vk xs))" using notin by (simp add: dom_map_of_conv_image_fst)
  then have m: "(operationRegister st)(a \<mapsto> r) ++ map_of (typed vk xs) =
      operationRegister st ++ map_of ((a, r) # typed vk xs)"
    by (simp add: map_add_upd_left)
  have "RegisterOperations vk (x # xs) st = RegisterOperations vk xs ?st1"
    by (simp add: x step)
  also have "\<dots> = (None, st\<lparr>operationRegister := operationRegister st ++ map_of ((a, r) # typed vk xs),
        operationResRegister := operationResRegister st \<union> snd ` set ((a, r) # typed vk xs)\<rparr>)"
    unfolding IH by (simp add: m del: map_of.simps)
  finally show ?case unfolding tx .
qed

lemma typed_perm:
  assumes "mset ys = mset xs"
  shows "mset (typed vk ys) = mset (typed vk xs)"
  using assms by (simp add: typed_def)

text \<open>
  C7. \<^verbatim>\<open>RegisterOperation\<close> panics, leaving the registry as it was, whenever its argument
  key stands for a type that is already registered. A run of calls whose keys all
  validate and whose argument types are pairwise distinct and not yet registered
  succeeds; the registry it leaves is the old one extended by every pair of the run,
  untouched elsewhere, and the same state results from the calls in any other order.
\<close>

theorem RegisterOperation_duplicate_fatal_distinct_cumulative:
  "(vk args = Inr a \<and> operationRegister st a = Some old \<longrightarrow>
      (\<exists>err. RegisterOperation vk args res st = (Some err, st))) \<and>
   (valid_keys vk xs \<and> distinct (map fst (typed vk xs)) \<and>
    (\<forall>a \<in> fst ` set (typed vk xs). operationRegister st a = None) \<longrightarrow>
      (\<exists>st'. RegisterOperations vk xs st = (None, st') \<and>
         operationRegister st' = operationRegister st ++ map_of (typed vk xs) \<and>
         (\<forall>(a, r) \<in> set (typed vk xs). operationRegister st' a = Some r) \<and>
         (\<forall>a. a \<notin> fst ` set (typed vk xs) \<longrightarrow> operationRegister st' a = operationRegister st a) \<and>
         operationResRegister st' = operationResRegister st \<union> snd ` set (typed vk xs) \<and>
         (\<forall>ys. mset ys = mset xs \<longrightarrow> RegisterOperations vk ys st = (None, st'))))"
proof (intro conjI impI)
  assume "vk args = Inr a \<and> operationRegister st a = Some old"
  then show "\<exists>err. RegisterOperation vk args res st = (Some err, st)"
    using RegisterOperation_duplicate by blast
next
  assume A: "valid_keys vk xs \<and> distinct (map fst (typed vk xs)) \<and>
    (\<forall>a \<in> fst ` set (typed vk xs). operationRegister st a = None)"
  let ?st' = "st\<lparr>operationRegister := operationRegister st ++ map_of (typed vk xs),
                 operationResRegister := operationResRegister st \<union> snd ` set (typed vk xs)\<rparr>"
  have run: "RegisterOperations vk xs st = (None, ?st')"
    using A by (intro RegisterOperations_distinct) simp_all
  have rec: "\<forall>(a, r) \<in> set (typed vk xs). operationRegister ?st' a = Some r"
    using A by (auto simp: map_add_Some_iff)
  have keep: "\<forall>a. a \<notin> fst ` set (typed vk xs) \<longrightarrow> operationRegister ?st' a = operationRegister st a"
    by (auto simp: map_add_def split: option.splits dest: map_of_SomeD intro: rev_image_eqI)
  have perm: "RegisterOperations vk ys st = (None, ?st')" if p: "mset ys = mset xs" for ys
  proof -
    have t: "mset (typed vk ys) = mset (typed vk xs)" by (rule typed_perm[OF p])
    then have s: "set (typed vk ys) = set (typed vk xs)" by (rule mset_eq_setD)
    have "mset (map fst (typed vk ys)) = mset (map fst (typed vk xs))"
      using t by (metis mset_map)
    then have d: "distinct (map fst (typed vk ys))"
      using A by (metis mset_eq_imp_distinct_iff)
    have "set ys = set xs" using p by (rule mset_eq_setD)
    then have v: "valid_keys vk ys" using A by (simp add: valid_keys_def list_all_iff)
    have "RegisterOperations vk ys st =
        (None, st\<lparr>operationRegister := operationRegister st ++ map_of (typed vk ys),
                  operationResRegister := operationResRegister st \<union> snd ` set (typed vk ys)\<rparr>)"
      using A v d s by (intro RegisterOperations_distinct) simp_all
    moreover have "map_of (typed vk ys) = map_of (typed vk xs)"
      using d A s by (simp add: map_of_inject_set)
    ultimately show ?thesis using s by simp
  qed
  show "\<exists>st'. RegisterOperations vk xs st = (None, st') \<and>
         operationRegister st' = operationRegister st ++ map_of (typed vk xs) \<and>
         (\<forall>(a, r) \<in> set (typed vk xs). operationRegister st' a = Some r) \<and>
         (\<forall>a. a \<notin> fst ` set (typed vk xs) \<longrightarrow> operationRegister st' a = operationRegister st a) \<and>
         operationResRegister st' = operationResRegister st \<union> snd ` set (typed vk xs) \<and>
         (\<forall>ys. mset ys = mset xs \<longrightarrow> RegisterOperations vk ys st = (None, st'))"
    using run rec keep perm by (intro exI[of _ ?st']) simp
qed

lemma demo_listeners_register:
  "operationRegister demo_listeners = [Some ''Args'' \<mapsto> Some ''Res'']"
  by (simp add: demo_listeners_def demo_eval)

theorem RegisterOperation_duplicate_fatal_distinct_cumulative_witness:
  "demo_key (Value ''Args'' []) = Inr (Some ''Args'') \<and>
   operationRegister demo_listeners (Some ''Args'') = Some (Some ''Res'') \<and>
   (\<exists>err. RegisterOperation demo_key (Value ''Args'' []) (Value ''Other'' []) demo_listeners =
            (Some err, demo_listeners)) \<and>
   valid_keys demo_key demo_kinds \<and>
   distinct (map fst (typed demo_key demo_kinds)) \<and>
   (\<exists>st'. RegisterOperations demo_key demo_kinds demo_listeners = (None, st') \<and>
      operationRegister st' (Some ''A'') = Some (Some ''RA'') \<and>
      operationRegister st' (Some ''B'') = Some (Some ''RB'') \<and>
      operationRegister st' (Some ''Args'') = Some (Some ''Res'') \<and>
      RegisterOperations demo_key (rev demo_kinds) demo_listeners = (None, st'))"
proof -
  have a: "demo_key (Value ''Args'' []) = Inr (Some ''Args'') \<and>
      operationRegister demo_listeners (Some ''Args'') = Some (Some ''Res'')"
    by (simp add: demo_key_def demo_listeners_register)
  have t: "typed demo_key demo_kinds = [(Some ''A'', Some ''RA''), (Some ''B'', Some ''RB'')]"
    by (simp add: typed_def demo_kinds_def demo_key_def)
  have b: "valid_keys demo_key demo_kinds \<and> distinct (map fst (typed demo_key demo_kinds)) \<and>
      (\<forall>a \<in> fst ` set (typed demo_key demo_kinds). operationRegister demo_listeners a = None)"
    unfolding t by (simp add: valid_keys_def demo_kinds_def demo_key_def demo_listeners_register)
  note inst = RegisterOperation_duplicate_fatal_distinct_cumulative
    [where vk = demo_key and args = "Value ''Args'' []" and a = "Some ''Args''"
       and st = demo_listeners and old = "Some ''Res''" and res = "Value ''Other'' []"
       and xs = demo_kinds]
  from inst a have dup: "\<exists>err. RegisterOperation demo_key (Value ''Args'' []) (Value ''Other'' [])
      demo_listeners = (Some err, demo_listeners)"
    by blast
  from inst b obtain st' where
    run: "RegisterOperations demo_key demo_kinds demo_listeners = (None, st')"
    and reg: "operationRegister st' = operationRegister demo_listeners ++ map_of (typed demo_key demo_kinds)"
    and perm: "\<forall>ys. mset ys = mset demo_kinds \<longrightarrow>
       RegisterOperations demo_key ys demo_listeners = (None, st')"
    by blast
  have "RegisterOperations demo_key (rev demo_kinds) demo_listeners = (None, st')"
    using perm by simp
  moreover have "operationRegister st' (Some ''A'') = Some (Some ''RA'')"
    "operationRegister st' (Some ''B'') = Some (Some ''RB'')"
    "operationRegister st' (Some ''Args'') = Some (Some ''Res'')"
    unfolding reg t by (simp_all add: demo_listeners_register)
  ultimately show ?thesis using a b dup run by blast
qed

section \<open>Event batches\<close>

lemma forFilters_eq:
  "forFilters X t (Some c) m fs evs s =
     (evs @ map (record_of X) (enumerate (uuids s) (map (\<lambda>f. (t, m, f, c)) fs)),
      s\<lparr>uuids := uuids s + length fs\<rparr>)"
proof (induction fs arbitrary: evs s)
  case Nil
  then show ?case by simp
next
  case (Cons f fs)
  show ?case
    by (simp add: NewAttackEvent_def Cons.IH record_of_def)
qed

lemma forMatches_eq:
  "forMatches X t (Some c) ms evs s =
     (evs @ map (record_of X)
        (enumerate (uuids s) (concat (map (\<lambda>m. map (\<lambda>f. (t, m, f, c)) (m_Filter m)) ms))),
      s\<lparr>uuids := uuids s + length (concat (map (\<lambda>m. map (\<lambda>f. (t, m, f, c)) (m_Filter m)) ms))\<rparr>)"
proof (induction ms arbitrary: evs s)
  case Nil
  then show ?case by simp
next
  case (Cons m ms)
  show ?case
    by (simp add: forFilters_eq Cons.IH enumerate_append_eq add.assoc)
qed

lemma forAttacks_eq:
  "forAttacks X c as batch s =
     (batch\<lparr>Events := Events batch @ map (record_of X)
        (enumerate (uuids s) (concat (map (detections_of_attack X c) as)))\<rparr>,
      s\<lparr>uuids := uuids s + length (concat (map (detections_of_attack X c) as)),
        logged := logged s @ decode_errors X as\<rparr>)"
proof (induction as arbitrary: batch s)
  case Nil
  then show ?case by (simp add: decode_errors_def)
next
  case (Cons a as)
  show ?case
  proof (cases "Unmarshal X (a_Metadata a)")
    case (Inl err)
    then show ?thesis
      by (simp add: FromWAFAttack_def Cons.IH detections_of_attack_def decode_errors_def)
  next
    case (Inr ms)
    then show ?thesis
      by (simp add: FromWAFAttack_def forMatches_eq Cons.IH detections_of_attack_def
          decode_errors_def enumerate_append_eq add.assoc)
  qed
qed

lemma forEvents_eq:
  "forEvents X g es batch s =
     (batch\<lparr>Events := Events batch @ map (record_of X)
        (enumerate (uuids s) (detections X es g))\<rparr>,
      s\<lparr>uuids := uuids s + length (detections X es g),
        logged := logged s @ concat (map (\<lambda>e. decode_errors X (e_Event e)) es)\<rparr>)"
proof (induction es arbitrary: batch s)
  case Nil
  then show ?case by (simp add: detections_def)
next
  case (Cons e es)
  show ?case
    by (simp add: forAttacks_eq Cons.IH detections_def enumerate_append_eq add.assoc Let_def)
qed

text \<open>
  C8. For every list of security events, every global context list and every
  environment, \<^verbatim>\<open>FromSecurityEvents\<close> returns a batch whose idempotency key is the UUID it
  draws first, and whose events are the records of the detected conditions, in order: one
  per filter of each match of each attack whose metadata decodes, each with a UUID drawn
  after the key. An attack whose metadata fails to decode adds no record; its error is
  logged and the batch goes on. When the UUID source never repeats itself, the key
  differs from the identifier of every event of the batch and from every other draw.
\<close>

theorem FromSecurityEvents_batch:
  "\<exists>batch s'. FromSecurityEvents X events globalContext s = (batch, s') \<and>
      IdempotencyKey batch = NewUUID X (uuids s) \<and>
      Events batch =
        map (record_of X) (enumerate (Suc (uuids s)) (detections X events globalContext)) \<and>
      length (Events batch) = length (detections X events globalContext) \<and>
      uuids s' = Suc (uuids s) + length (detections X events globalContext) \<and>
      logged s' = logged s @ concat (map (\<lambda>e. decode_errors X (e_Event e)) events) \<and>
      (inj (NewUUID X) \<longrightarrow>
         IdempotencyKey batch \<notin> EventID ` set (Events batch) \<and>
         distinct (map EventID (Events batch)) \<and>
         (\<forall>n. n \<noteq> uuids s \<longrightarrow> NewUUID X n \<noteq> IdempotencyKey batch))"
proof -
  let ?d = "detections X events globalContext"
  let ?batch = "\<lparr>IdempotencyKey = NewUUID X (uuids s),
                 Events = map (record_of X) (enumerate (Suc (uuids s)) ?d)\<rparr>"
  let ?s' = "s\<lparr>uuids := Suc (uuids s) + length ?d,
               logged := logged s @ concat (map (\<lambda>e. decode_errors X (e_Event e)) events)\<rparr>"
  have run: "FromSecurityEvents X events globalContext s = (?batch, ?s')"
    by (simp add: FromSecurityEvents_def forEvents_eq Let_def)
  have "map EventID (map (record_of X) xs) = map (NewUUID X) (map fst xs)" for xs
    by (simp add: record_of_def split_def)
  then have ids: "map EventID (Events ?batch) =
      map (NewUUID X) [Suc (uuids s) ..< Suc (uuids s) + length ?d]"
    by (simp only: EventBatch.simps map_fst_enumerate)
  have uniq: "IdempotencyKey ?batch \<notin> EventID ` set (Events ?batch) \<and>
         distinct (map EventID (Events ?batch)) \<and>
         (\<forall>n. n \<noteq> uuids s \<longrightarrow> NewUUID X n \<noteq> IdempotencyKey ?batch)" if i: "inj (NewUUID X)"
  proof -
    let ?ids = "map (NewUUID X) [Suc (uuids s) ..< Suc (uuids s) + length ?d]"
    have a: "NewUUID X (uuids s) \<notin> set ?ids"
      using i by (auto simp: inj_eq simp del: upt_Suc)
    have "inj_on (NewUUID X) (set [Suc (uuids s) ..< Suc (uuids s) + length ?d])"
      using i by (rule inj_on_subset) simp
    then have b: "distinct ?ids"
      by (simp only: distinct_map distinct_upt simp_thms)
    have c: "\<forall>n. n \<noteq> uuids s \<longrightarrow> NewUUID X n \<noteq> IdempotencyKey ?batch"
      using i by (simp add: inj_eq)
    have "IdempotencyKey ?batch \<notin> set (map EventID (Events ?batch))"
      unfolding ids using a by simp
    moreover have "EventID ` set (Events ?batch) = set (map EventID (Events ?batch))"
      by (rule set_map[symmetric])
    ultimately have "IdempotencyKey ?batch \<notin> EventID ` set (Events ?batch)"
      by (rule ssubst[rotated])
    moreover have "distinct (map EventID (Events ?batch))"
      unfolding ids by (rule b)
    ultimately show ?thesis using c by blast
  qed
  show ?thesis
    using run uniq by (intro exI[of _ ?batch] exI[of _ ?s']) simp
qed

lemma demo_detections:
  "detections demo_extern demo_events [] =
     (let c = NewAttackContext demo_extern [IsSpanContext \<lparr>TraceID = 7, SpanID = 9\<rparr>] [];
          m1 = \<lparr>m_Rule = ''rule-1'', m_Flow = ''sqli'', m_Filter = [demo_filter, demo_filter]\<rparr>;
          m2 = \<lparr>m_Rule = ''rule-1'', m_Flow = ''sqli'', m_Filter = [demo_filter]\<rparr>
      in [(100, m1, demo_filter, c), (100, m1, demo_filter, c), (102, m2, demo_filter, c)])"
  by (simp add: detections_def detections_of_attack_def demo_events_def demo_extern_def Let_def
      numeral_2_eq_2)

lemma inj_demo_uuid: "inj (NewUUID demo_extern)"
proof (rule injI)
  fix n m
  assume "NewUUID demo_extern n = NewUUID demo_extern m"
  then have "replicate n (CHR ''i'') = replicate m (CHR ''i'')"
    by (simp add: demo_extern_def)
  then have "length (replicate n (CHR ''i'')) = length (replicate m (CHR ''i''))"
    by (rule arg_cong)
  then show "n = m" by simp
qed

theorem FromSecurityEvents_batch_witness:
  "inj (NewUUID demo_extern) \<and>
   (\<exists>batch s'. FromSecurityEvents demo_extern demo_events [] \<lparr>uuids = 0, logged = []\<rparr> =
        (batch, s') \<and>
      IdempotencyKey batch = ''uuid-'' \<and>
      map EventID (Events batch) = [''uuid-i'', ''uuid-ii'', ''uuid-iii''] \<and>
      map DetectedAt (Events batch) = [100, 100, 102] \<and>
      uuids s' = 4 \<and>
      logged s' = [''unexpected end of JSON input''] \<and>
      IdempotencyKey batch \<notin> EventID ` set (Events batch))"
proof -
  let ?s = "\<lparr>uuids = 0, logged = []\<rparr>"
  from FromSecurityEvents_batch[of demo_extern demo_events "[]" ?s] inj_demo_uuid
  obtain batch s' where
    run: "FromSecurityEvents demo_extern demo_events [] ?s = (batch, s')"
    and key: "IdempotencyKey batch = NewUUID demo_extern (uuids ?s)"
    and evs: "Events batch =
        map (record_of demo_extern) (enumerate (Suc (uuids ?s)) (detections demo_extern demo_events []))"
    and n: "uuids s' = Suc (uuids ?s) + length (detections demo_extern demo_events [])"
    and l: "logged s' = logged ?s @ concat (map (\<lambda>e. decode_errors demo_extern (e_Event e)) demo_events)"
    and fresh: "IdempotencyKey batch \<notin> EventID ` set (Events batch)"
    by blast
  have "IdempotencyKey batch = ''uuid-''"
    using key by (simp add: demo_extern_def)
  moreover have "map EventID (Events batch) = [''uuid-i'', ''uuid-ii'', ''uuid-iii'']"
    unfolding evs demo_detections
    by (simp add: Let_def record_of_def demo_extern_def numeral_2_eq_2 numeral_3_eq_3)
  moreover have "map DetectedAt (Events batch) = [100, 100, 102]"
    unfolding evs demo_detections by (simp add: Let_def record_of_def)
  moreover have "uuids s' = 4"
    unfolding n demo_detections by (simp add: Let_def)
  moreover have "logged s' = [''unexpected end of JSON input'']"
    unfolding l by (simp add: decode_errors_def demo_events_def demo_extern_def)
  ultimately have "\<exists>batch s'. FromSecurityEvents demo_extern demo_events [] ?s = (batch, s') \<and>
      IdempotencyKey batch = ''uuid-'' \<and>
      map EventID (Events batch) = [''uuid-i'', ''uuid-ii'', ''uuid-iii''] \<and>
      map DetectedAt (Events batch) = [100, 100, 102] \<and>
      uuids s' = 4 \<and>
      logged s' = [''unexpected end of JSON input''] \<and>
      IdempotencyKey batch \<notin> EventID ` set (Events batch)"
    using run fresh by (intro exI[of _ batch] exI[of _ s']) simp
  with inj_demo_uuid show ?thesis by (rule conjI)
qed

section \<open>Span contexts\<close>

text \<open>
  C10. After \<^verbatim>\<open>applySpanContext\<close>, the span identifier of the attack context is the
  decimal rendering of the trace identifier of the span context, the same text as the
  trace identifier of the attack context, whatever the span identifier of the span context
  is.
\<close>

theorem applySpanContext_span_is_trace:
  "span_ID (ctx_Span (applySpanContext c ctx)) = FormatUint10 (TraceID ctx) \<and>
   trace_ID (ctx_Trace (applySpanContext c ctx)) = FormatUint10 (TraceID ctx) \<and>
   span_ID (ctx_Span (applySpanContext c ctx)) = trace_ID (ctx_Trace (applySpanContext c ctx)) \<and>
   applySpanContext c (ctx\<lparr>SpanID := x\<rparr>) = applySpanContext c ctx"
  by (simp add: applySpanContext_def MakeAttackContextSpan_def MakeAttackContextTrace_def Let_def)


end
